theory Spec2Isabelle
  imports Main
begin

section \<open>Python strings\<close>

text \<open>
  A Python \<open>str\<close> is a sequence of Unicode code points, and \<open>len\<close> counts code points.
  A string is therefore a list of code points; ASCII literals are written with \<open>lit\<close>,
  the other characters of the scripts (emoji, Chinese) by their code point.
\<close>

type_synonym str = "nat list"

definition lit :: "string \<Rightarrow> str" where
  "lit s = map of_char s"

definition nl :: str where
  "nl = [10]"

text \<open>\<open>str(n)\<close> for a non-negative integer, as an f-string renders \<open>len(...)\<close>.\<close>

fun str_of_nat :: "nat \<Rightarrow> str" where
  "str_of_nat n = (if n < 10 then [48 + n] else str_of_nat (n div 10) @ [48 + n mod 10])"

declare str_of_nat.simps [simp del]

text \<open>The code points for which \<open>str.isspace\<close> holds; \<open>str.strip()\<close> removes them at both ends.\<close>

definition isspace :: "nat \<Rightarrow> bool" where
  "isspace c = ((9 \<le> c \<and> c \<le> 13) \<or> (28 \<le> c \<and> c \<le> 32) \<or> c = 133 \<or> c = 160
      \<or> c = 5760 \<or> (8192 \<le> c \<and> c \<le> 8202) \<or> c = 8232 \<or> c = 8233 \<or> c = 8239
      \<or> c = 8287 \<or> c = 12288)"

definition strip :: "str \<Rightarrow> str" where
  "strip s = rev (dropWhile isspace (rev (dropWhile isspace s)))"

text \<open>\<open>s[i:j]\<close> for \<open>0 \<le> i \<le> j\<close>.\<close>

definition slice :: "'a list \<Rightarrow> nat \<Rightarrow> nat \<Rightarrow> 'a list" where
  "slice s i j = take (j - i) (drop i s)"

definition startswith :: "str \<Rightarrow> str \<Rightarrow> bool" where
  "startswith s p = (take (length p) s = p)"

text \<open>\<open>sub in s\<close>.\<close>

fun contains :: "str \<Rightarrow> str \<Rightarrow> bool" where
  "contains sub [] = (sub = [])"
| "contains sub (c # cs) = (startswith (c # cs) sub \<or> contains sub cs)"

text \<open>\<open>s.split(sep)\<close> for a non-empty separator: \<open>cur\<close> holds the current piece, reversed.\<close>

function split_from :: "str \<Rightarrow> str \<Rightarrow> str \<Rightarrow> str list" where
  "split_from sep cur [] = [rev cur]"
| "split_from sep cur (c # cs) =
     (if sep \<noteq> [] \<and> startswith (c # cs) sep
      then rev cur # split_from sep [] (drop (length sep) (c # cs))
      else split_from sep (c # cur) cs)"
  by pat_completeness auto
termination
  by (relation "measure (\<lambda>(sep, cur, s). length s)") auto

definition split :: "str \<Rightarrow> str \<Rightarrow> str list" where
  "split s sep = split_from sep [] s"

text \<open>\<open>range(start, stop, step)\<close> for a positive step.\<close>

function range3 :: "nat \<Rightarrow> nat \<Rightarrow> nat \<Rightarrow> nat list" where
  "range3 i stop step = (if 0 < step \<and> i < stop then i # range3 (i + step) stop step else [])"
  by pat_completeness auto
termination
  by (relation "measure (\<lambda>(i, stop, step). stop - i)") auto

declare range3.simps [simp del]

text \<open>Truthiness of an optional string: \<open>None\<close> and \<open>""\<close> are false.\<close>

fun truthy :: "str option \<Rightarrow> bool" where
  "truthy None = False"
| "truthy (Some s) = (s \<noteq> [])"


definition str_of_opt :: "str option \<Rightarrow> str" where
  "str_of_opt x = (case x of None \<Rightarrow> lit ''None'' | Some s \<Rightarrow> s)"

text \<open>The emoji that open the scripts' messages, by code point.\<close>

definition warning_sign :: str where "warning_sign = [0x26A0, 0xFE0F]"
definition memo :: str where "memo = [0x1F4DD]"
definition bar_chart :: str where "bar_chart = [0x1F4CA]"
definition pushpin :: str where "pushpin = [0x1F4CC]"
definition hooked_arrow :: str where "hooked_arrow = [0x21A9, 0xFE0F]"
definition check_mark :: str where "check_mark = [0x2705]"
definition cross_mark :: str where "cross_mark = [0x274C]"
definition light_bulb :: str where "light_bulb = [0x1F4A1]"
definition speech_balloon :: str where "speech_balloon = [0x1F4AC]"
definition writing_hand :: str where "writing_hand = [0x270D, 0xFE0F]"
definition outbox_tray :: str where "outbox_tray = [0x1F4E4]"
definition hourglass :: str where "hourglass = [0x23F3]"
definition arrows_cycle :: str where "arrows_cycle = [0x1F504]"

section \<open>The browser as an environment\<close>

text \<open>
  The scripts drive a remote browser through Playwright. Every awaited Playwright call is an
  action; a run emits a trace of actions. The browser is a parameter of the model: a world
  answers an action, given the actions performed before it, with an exception message
  (\<open>Inl\<close>) or with a value of the call's result type (\<open>Inr\<close>). The properties
  \<open>browser.contexts\<close> and \<open>page.url\<close> are read without a call and cannot raise.
\<close>

datatype locator = Locator str | First locator | Nth locator nat

datatype action =
    StartPlaywright
  | StopPlaywright
  | ConnectOverCdp str
  | NewPage
  | Goto str str nat
  | WaitForTimeout nat
  | WaitForSelector str nat
  | Count locator
  | Click locator bool
  | Fill locator str
  | GetAttribute locator str
  | InnerText locator
  | IsDisabled locator
  | ScrollIntoViewIfNeeded locator
  | KeyboardPress str
  | KeyboardType str nat
  | Screenshot str
  | ClosePage

record world =
  unit_reply :: "action list \<Rightarrow> action \<Rightarrow> str + unit"
  count_reply :: "action list \<Rightarrow> locator \<Rightarrow> str + nat"
  attribute_reply :: "action list \<Rightarrow> locator \<Rightarrow> str \<Rightarrow> str + str option"
  text_reply :: "action list \<Rightarrow> locator \<Rightarrow> str + str"
  disabled_reply :: "action list \<Rightarrow> locator \<Rightarrow> str + bool"
  contexts_reply :: "action list \<Rightarrow> nat"
  url_reply :: "action list \<Rightarrow> str"

section \<open>Statements\<close>

text \<open>
  A statement of a Python function body either falls through to the next statement with a
  value (\<open>Next\<close>), executes \<open>return\<close> (\<open>Returned\<close>), or raises an \<open>Exception\<close>
  with a message (\<open>Raised\<close>). It is run in a world after a history of actions and yields
  its outcome, the actions it performed and the lines it printed.
\<close>

datatype 'a outcome = Next 'a | Returned str | Raised str

type_synonym 'a io = "world \<Rightarrow> action list \<Rightarrow> 'a outcome \<times> action list \<times> str list"

definition pure :: "'a \<Rightarrow> 'a io" where
  "pure x = (\<lambda>w h. (Next x, [], []))"

definition return :: "str \<Rightarrow> 'a io" where
  "return v = (\<lambda>w h. (Returned v, [], []))"

definition print :: "str \<Rightarrow> unit io" where
  "print s = (\<lambda>w h. (Next (), [], [s]))"

definition bind :: "'a io \<Rightarrow> ('a \<Rightarrow> 'b io) \<Rightarrow> 'b io" where
  "bind m f = (\<lambda>w h. case m w h of
      (Next x, tr, out) \<Rightarrow> (case f x w (h @ tr) of (oc, tr', out') \<Rightarrow> (oc, tr @ tr', out @ out'))
    | (Returned v, tr, out) \<Rightarrow> (Returned v, tr, out)
    | (Raised e, tr, out) \<Rightarrow> (Raised e, tr, out))"

definition seq :: "unit io \<Rightarrow> 'a io \<Rightarrow> 'a io" where
  "seq m k = bind m (\<lambda>_. k)"

fun block :: "unit io list \<Rightarrow> unit io" where
  "block [] = pure ()"
| "block (m # ms) = seq m (block ms)"

definition if_then :: "bool \<Rightarrow> unit io \<Rightarrow> unit io" where
  "if_then c m = (if c then m else pure ())"

text \<open>\<open>try: m except Exception as e: handler e\<close>\<close>

definition try_except :: "'a io \<Rightarrow> (str \<Rightarrow> 'a io) \<Rightarrow> 'a io" where
  "try_except m handler = (\<lambda>w h. case m w h of
      (Raised e, tr, out) \<Rightarrow>
        (case handler e w (h @ tr) of (oc, tr', out') \<Rightarrow> (oc, tr @ tr', out @ out'))
    | (oc, tr, out) \<Rightarrow> (oc, tr, out))"

text \<open>
  \<open>try: m finally: fin\<close>: the \<open>finally\<close> block runs however \<open>m\<close> ends; when it raises or
  returns itself, that replaces the outcome of \<open>m\<close>.
\<close>

definition try_finally :: "'a io \<Rightarrow> unit io \<Rightarrow> 'a io" where
  "try_finally m fin = (\<lambda>w h. case m w h of (oc, tr, out) \<Rightarrow>
      (case fin w (h @ tr) of
         (Next _, tr', out') \<Rightarrow> (oc, tr @ tr', out @ out')
       | (Returned v, tr', out') \<Rightarrow> (Returned v, tr @ tr', out @ out')
       | (Raised e, tr', out') \<Rightarrow> (Raised e, tr @ tr', out @ out')))"

text \<open>
  \<open>for x in xs: body\<close> with a loop variable \<open>v\<close> that the body may assign; the body ends
  an iteration with \<open>Continue\<close> (also when it falls off its end) or leaves the loop with
  \<open>Break\<close>.
\<close>

datatype ctl = Continue | Break

fun for_loop :: "'a list \<Rightarrow> 'v \<Rightarrow> ('a \<Rightarrow> 'v \<Rightarrow> (ctl \<times> 'v) io) \<Rightarrow> 'v io" where
  "for_loop [] v body w h = (Next v, [], [])"
| "for_loop (x # xs) v body w h = (case body x v w h of
      (Next (Continue, v'), tr, out) \<Rightarrow>
        (case for_loop xs v' body w (h @ tr) of (oc, tr', out') \<Rightarrow> (oc, tr @ tr', out @ out'))
    | (Next (Break, v'), tr, out) \<Rightarrow> (Next v', tr, out)
    | (Returned r, tr, out) \<Rightarrow> (Returned r, tr, out)
    | (Raised e, tr, out) \<Rightarrow> (Raised e, tr, out))"

text \<open>An awaited call: the action is recorded, the world decides how it ends.\<close>

definition perform :: "action \<Rightarrow> (world \<Rightarrow> action list \<Rightarrow> str + 'a) \<Rightarrow> 'a io" where
  "perform a reply = (\<lambda>w h. case reply w h of
      Inl e \<Rightarrow> (Raised e, [a], [])
    | Inr v \<Rightarrow> (Next v, [a], []))"

definition call :: "action \<Rightarrow> unit io" where
  "call a = perform a (\<lambda>w h. unit_reply w h a)"

definition count :: "locator \<Rightarrow> nat io" where
  "count l = perform (Count l) (\<lambda>w h. count_reply w h l)"

definition get_attribute :: "locator \<Rightarrow> str \<Rightarrow> str option io" where
  "get_attribute l name = perform (GetAttribute l name) (\<lambda>w h. attribute_reply w h l name)"

definition inner_text :: "locator \<Rightarrow> str io" where
  "inner_text l = perform (InnerText l) (\<lambda>w h. text_reply w h l)"

definition is_disabled :: "locator \<Rightarrow> bool io" where
  "is_disabled l = perform (IsDisabled l) (\<lambda>w h. disabled_reply w h l)"

definition contexts :: "nat io" where
  "contexts = (\<lambda>w h. (Next (contexts_reply w h), [], []))"

definition page_url :: "str io" where
  "page_url = (\<lambda>w h. (Next (url_reply w h), [], []))"

text \<open>
  \<open>async with async_playwright() as p: body\<close>: Playwright is started, and stopped again
  however the body ends.
\<close>

definition with_playwright :: "'a io \<Rightarrow> 'a io" where
  "with_playwright body =
     seq (call StartPlaywright) (try_finally body (\<lambda>w h. (Next (), [StopPlaywright], [])))"

text \<open>The idiom \<open>if not await x.count(): x = alt\<close>.\<close>

definition unless_found :: "locator \<Rightarrow> locator \<Rightarrow> locator io" where
  "unless_found x alt = bind (count x) (\<lambda>n. pure (if n = 0 then alt else x))"

text \<open>The condition \<open>await a.count() or await b.count()\<close>: \<open>b\<close> is counted only when \<open>a\<close> is absent.\<close>

definition either_found :: "locator \<Rightarrow> locator \<Rightarrow> bool io" where
  "either_found a b =
     bind (count a) (\<lambda>n. if n \<noteq> 0 then pure True else bind (count b) (\<lambda>k. pure (k \<noteq> 0)))"


section \<open>twitter_post.py\<close>

definition twitter_CDP_URL :: str where
  "twitter_CDP_URL = lit ''http://127.0.0.1:18800''"

definition goto :: "str \<Rightarrow> str \<Rightarrow> nat \<Rightarrow> unit io" where
  "goto url wait_until timeout = call (Goto url wait_until timeout)"

definition wait_for_timeout :: "nat \<Rightarrow> unit io" where
  "wait_for_timeout ms = call (WaitForTimeout ms)"

definition screenshot :: "str \<Rightarrow> unit io" where
  "screenshot path = call (Screenshot path)"

definition tweet_textarea :: locator where
  \<open>tweet_textarea = First (Locator (lit ''[data-testid="tweetTextarea_0"]''))\<close>

definition post_text_box :: locator where
  \<open>post_text_box = First (Locator (lit ''[aria-label="Post text"]''))\<close>

text \<open>Lines 65 to 100: navigation and the search for the text box, in reply or new-tweet mode.\<close>

definition find_textbox :: "str option \<Rightarrow> locator io" where
  \<open>find_textbox reply_to =
    (if truthy reply_to then
       seq (block [
         print (hooked_arrow @ lit ''  Replying to: '' @ str_of_opt reply_to),
         goto (str_of_opt reply_to) (lit ''domcontentloaded'') 60000,
         wait_for_timeout 3000])
       (bind (unless_found (First (Locator (lit ''[data-testid="reply"]'')))
                           (First (Locator (lit ''button[aria-label*="Reply"]''))))
         (\<lambda>reply_button. bind (count reply_button)
         (\<lambda>n. seq
           (if n \<noteq> 0 then block [
              print (speech_balloon @ lit '' Opening reply dialog...''),
              call (Click reply_button False),
              wait_for_timeout 1500]
            else return (cross_mark @ lit '' Could not find reply button''))
           (bind (unless_found tweet_textarea
                    (First (Locator (lit ''div[role="dialog"] [data-testid="tweetTextarea_0"]''))))
             (\<lambda>textbox. unless_found textbox post_text_box)))))
     else
       seq (block [
         print (memo @ lit '' Opening compose dialog...''),
         goto (lit ''https://twitter.com/compose/tweet'') (lit ''domcontentloaded'') 60000,
         wait_for_timeout 3000])
       (unless_found tweet_textarea post_text_box))\<close>

definition selectors :: "str list" where
  \<open>selectors = [
     lit ''div[role="dialog"] button[data-testid="tweetButton"]'',
     lit ''button[data-testid="tweetButton"]'',
     lit ''button[data-testid="tweetButtonInline"]'',
     lit ''div[role="dialog"] button:has-text("Reply")'',
     lit ''div[role="dialog"] button:has-text("Post")'']\<close>

text \<open>Lines 139 to 151: the body of the loop over the button selectors.\<close>

definition try_button :: "str \<Rightarrow> unit \<Rightarrow> (ctl \<times> unit) io" where
  "try_button selector u =
    (let btn = First (Locator selector) in
     bind (count btn) (\<lambda>n.
       if n \<noteq> 0 then
         try_except
           (bind (get_attribute btn (lit ''disabled'')) (\<lambda>is_disabled.
              if truthy is_disabled then pure (Continue, ())
              else seq (block [
                     call (Click btn True),
                     print (check_mark @ lit '' Clicked: '' @ selector),
                     wait_for_timeout 3000])
                   (pure (Break, ()))))
           (\<lambda>e. seq (print (warning_sign @ lit ''  Failed '' @ selector @ lit '': '' @ e))
                    (pure (Continue, ())))
       else pure (Continue, ())))"

definition action_word :: "str option \<Rightarrow> str" where
  "action_word reply_to = (if truthy reply_to then lit ''Reply'' else lit ''Tweet'')"

text \<open>Lines 65 to 160: the body of the \<open>try\<close> statement.\<close>

definition post_tweet_try :: "str \<Rightarrow> str option \<Rightarrow> unit io" where
  \<open>post_tweet_try content reply_to =
    bind (find_textbox reply_to) (\<lambda>textbox.
    bind (count textbox) (\<lambda>n.
    let alert = Locator (lit ''text="Your post was sent."'');
        reply_alert = Locator (lit ''text="Your reply was sent."'')
    in block [
      if_then (n = 0) (block [
        screenshot (lit ''/tmp/twitter_debug.png''),
        return (cross_mark @ lit '' Could not find tweet textbox. Screenshot saved to /tmp/twitter_debug.png'')]),
      print (writing_hand @ lit ''  Typing content...''),
      call (Click textbox False),
      wait_for_timeout 300,
      call (Fill textbox content),
      wait_for_timeout 500,
      print (outbox_tray @ lit '' Posting via Ctrl+Enter...''),
      call (KeyboardPress (lit ''Control+Enter'')),
      print (hourglass @ lit '' Waiting for confirmation...''),
      wait_for_timeout 3000,
      bind (either_found alert reply_alert) (\<lambda>sent.
        if_then sent (block [
          print (check_mark @ lit '' '' @ action_word reply_to @ lit '' posted successfully!''),
          return (check_mark @ lit '' '' @ action_word reply_to @ lit '' posted!'')])),
      print (arrows_cycle @ lit '' Trying button click...''),
      for_loop selectors () try_button,
      wait_for_timeout 2000,
      bind (either_found alert reply_alert) (\<lambda>sent.
        if_then sent (return (check_mark @ lit '' '' @ action_word reply_to @ lit '' posted!''))),
      screenshot (lit ''/tmp/twitter_debug.png''),
      return (warning_sign @ lit ''  Uncertain if posted. Screenshot saved to /tmp/twitter_debug.png'')]))\<close>

definition post_tweet :: "str \<Rightarrow> str option \<Rightarrow> bool \<Rightarrow> unit io" where
  "post_tweet content reply_to dry_run = block [
     if_then (280 < length content)
       (print (warning_sign @ lit ''  Warning: Tweet is '' @ str_of_nat (length content)
               @ lit '' chars (280 limit for free accounts)'')),
     if_then dry_run (block [
       print (memo @ lit '' Preview:'' @ nl @ content @ nl),
       print (bar_chart @ lit '' Length: '' @ str_of_nat (length content) @ lit '' chars''),
       if_then (truthy reply_to) (print (hooked_arrow @ lit ''  Reply to: '' @ str_of_opt reply_to)),
       return (lit ''DRY_RUN'')]),
     with_playwright (block [
       try_except
         (block [
            call (ConnectOverCdp twitter_CDP_URL),
            print (check_mark @ lit '' Connected to Clawdbot browser'')])
         (\<lambda>e. return (cross_mark @ lit '' Failed to connect to browser: '' @ e @ nl @ light_bulb
                  @ lit '' Make sure browser is running: clawdbot browser start --profile clawd'')),
       bind contexts (\<lambda>n.
         if_then (n = 0) (return (cross_mark @ lit '' No browser context found''))),
       call NewPage,
       try_finally
         (try_except
            (post_tweet_try content reply_to)
            (\<lambda>e. block [
               screenshot (lit ''/tmp/twitter_error.png''),
               return (cross_mark @ lit '' Error: '' @ e @ nl
                       @ lit ''Screenshot saved to /tmp/twitter_error.png'')]))
         (call ClosePage)])]"


section \<open>zhihu_post.py\<close>

definition zhihu_CDP_URL :: str where
  "zhihu_CDP_URL = lit ''http://127.0.0.1:18800''"

definition ZHIHU_WRITE_URL :: str where
  "ZHIHU_WRITE_URL = lit ''https://zhuanlan.zhihu.com/write''"

definition raise :: "str \<Rightarrow> 'a io" where
  "raise e = (\<lambda>w h. (Raised e, [], []))"

text \<open>\<open>xs[i]\<close>, which raises IndexError out of range.\<close>

definition item :: "'a list \<Rightarrow> nat \<Rightarrow> 'a io" where
  "item xs i = (if i < length xs then pure (xs ! i) else raise (lit ''list index out of range''))"

definition keyboard_type :: "str \<Rightarrow> nat \<Rightarrow> unit io" where
  "keyboard_type text delay = call (KeyboardType text delay)"

definition wait_for_selector :: "str \<Rightarrow> nat \<Rightarrow> unit io" where
  "wait_for_selector selector timeout = call (WaitForSelector selector timeout)"

text \<open>The Chinese words of the selectors: "title", "publish", "published successfully".\<close>

definition biaoti :: str where "biaoti = [0x6807, 0x9898]"
definition fabu :: str where "fabu = [0x53D1, 0x5E03]"
definition fabu_chenggong :: str where "fabu_chenggong = [0x53D1, 0x5E03, 0x6210, 0x529F]"

definition title_selectors :: "str list" where
  \<open>title_selectors = [
     lit ''textarea[placeholder*="'' @ biaoti @ lit ''"]'',
     lit ''input[placeholder*="'' @ biaoti @ lit ''"]'',
     lit ''textarea[placeholder*="100"]'',
     lit ''.WriteIndex-titleInput textarea'',
     lit ''.PostEditor-titleInput textarea'']\<close>

text \<open>Lines 92 to 95: the body of the loop over the title selectors.\<close>

definition try_title_selector :: "str \<Rightarrow> locator option \<Rightarrow> (ctl \<times> locator option) io" where
  "try_title_selector selector title_input =
    (let elem = First (Locator selector) in
     bind (count elem) (\<lambda>n.
       if n \<noteq> 0 then pure (Break, Some elem) else pure (Continue, title_input)))"

definition chunk_size :: nat where
  "chunk_size = 50"

text \<open>Lines 119 to 121: the body of the loop that types the content.\<close>

definition type_chunk :: "str \<Rightarrow> nat \<Rightarrow> unit \<Rightarrow> (ctl \<times> unit) io" where
  "type_chunk content i u =
    (let chunk = slice content i (i + chunk_size) in
     seq (block [keyboard_type chunk 3, wait_for_timeout 50]) (pure (Continue, ())))"

text \<open>Lines 134 to 138: the body of the loop over the buttons of the page.\<close>

definition try_publish_button :: "locator \<Rightarrow> nat \<Rightarrow> locator option \<Rightarrow> (ctl \<times> locator option) io" where
  "try_publish_button all_buttons i publish_btn =
    (let btn = Nth all_buttons i in
     bind (inner_text btn) (\<lambda>text.
       if strip text = fabu then pure (Break, Some btn) else pure (Continue, publish_btn)))"

text \<open>Lines 162 to 192: the inner \<open>try\<close> statement that waits for the success dialog.\<close>

definition await_confirmation :: "unit io" where
  \<open>await_confirmation =
    try_except
      (block [
         wait_for_selector (lit ''text="'' @ fabu_chenggong @ lit ''"'') 15000,
         print (check_mark @ lit '' Article published successfully!''),
         wait_for_timeout 3000,
         bind page_url (\<lambda>current_url.
           if_then (contains (lit ''/p/'') current_url)
             (bind (item (split current_url (lit ''/p/'')) 1) (\<lambda>rest.
              bind (item (split rest (lit ''/'')) 0) (\<lambda>article_id.
              let article_url = lit ''https://zhuanlan.zhihu.com/p/'' @ article_id in
              block [
                goto article_url (lit ''domcontentloaded'') 30000,
                wait_for_timeout 2000,
                return (check_mark @ lit '' Published! URL: '' @ article_url)])))),
         return (check_mark @ lit '' Article published successfully!'')])
      (\<lambda>e. block [
         wait_for_timeout 3000,
         bind page_url (\<lambda>current_url. block [
           if_then (contains (lit ''/p/'') current_url \<and> \<not> contains (lit ''/edit'') current_url)
             (return (check_mark @ lit '' Published! URL: '' @ current_url)),
           screenshot (lit ''/tmp/zhihu_result.png''),
           return (warning_sign @ lit ''  Uncertain if published. Current URL: '' @ current_url @ nl
                   @ lit ''Screenshot saved to /tmp/zhihu_result.png'')])])\<close>

text \<open>Lines 68 to 192: the body of the outer \<open>try\<close> statement.\<close>

definition post_article_try :: "str \<Rightarrow> str \<Rightarrow> unit io" where
  \<open>post_article_try title content = block [
     print (memo @ lit '' Opening Zhihu editor...''),
     goto ZHIHU_WRITE_URL (lit ''networkidle'') 60000,
     wait_for_timeout 5000,
     bind page_url (\<lambda>url.
       if_then (contains (lit ''signin'') url)
         (return (cross_mark @ lit '' Not logged in to Zhihu. Please login first in the Clawdbot browser.''))),
     wait_for_selector (lit ''textarea, [contenteditable="true"]'') 10000,
     print (writing_hand @ lit ''  Entering title...''),
     bind (for_loop title_selectors None try_title_selector) (\<lambda>found.
     let title_input = (case found of None \<Rightarrow> First (Locator (lit ''textarea'')) | Some elem \<Rightarrow> elem)
     in bind (count title_input) (\<lambda>n. block [
       if_then (n = 0) (block [
         screenshot (lit ''/tmp/zhihu_debug.png''),
         return (cross_mark @ lit '' Could not find title input. Screenshot saved to /tmp/zhihu_debug.png'')]),
       call (Click title_input False)])),
     wait_for_timeout 500,
     keyboard_type title 10,
     wait_for_timeout 1000,
     print (writing_hand @ lit ''  Entering content...''),
     call (KeyboardPress (lit ''Tab'')),
     wait_for_timeout 1000,
     for_loop (range3 0 (length content) chunk_size) () (type_chunk content),
     wait_for_timeout 2000,
     print (outbox_tray @ lit '' Publishing...''),
     (let all_buttons = Locator (lit ''button'') in
      bind (count all_buttons) (\<lambda>n.
      bind (for_loop [0..<n] None (try_publish_button all_buttons)) (\<lambda>found.
        case found of
          None \<Rightarrow> block [
            screenshot (lit ''/tmp/zhihu_debug.png''),
            return (cross_mark @ lit '' Could not find publish button. Screenshot saved to /tmp/zhihu_debug.png'')]
        | Some publish_btn \<Rightarrow> block [
            wait_for_timeout 1000,
            call (ScrollIntoViewIfNeeded publish_btn),
            wait_for_timeout 500,
            bind (is_disabled publish_btn) (\<lambda>disabled.
              if_then disabled (block [
                screenshot (lit ''/tmp/zhihu_debug.png''),
                return (cross_mark @ lit '' Publish button is disabled. Make sure title and content are entered. Screenshot saved.'')])),
            call (Click publish_btn True),
            print (hourglass @ lit '' Waiting for confirmation...''),
            await_confirmation])))]\<close>

definition post_article :: "str \<Rightarrow> str \<Rightarrow> bool \<Rightarrow> unit io" where
  "post_article title0 content dry_run =
    bind (if 100 < length title0
          then seq (print (warning_sign @ lit ''  Warning: Title is '' @ str_of_nat (length title0)
                           @ lit '' chars (100 limit)''))
                   (pure (slice title0 0 100))
          else pure title0) (\<lambda>title. block [
     if_then dry_run (block [
       print (memo @ lit '' Preview:''),
       print (pushpin @ lit '' Title: '' @ title),
       print (bar_chart @ lit '' Title length: '' @ str_of_nat (length title) @ lit '' chars''),
       print (bar_chart @ lit '' Body length: '' @ str_of_nat (length content) @ lit '' chars''),
       print (nl @ lit ''--- Content ---'' @ nl @ slice content 0 500
              @ (if 500 < length content then lit ''...'' else [])),
       return (lit ''DRY_RUN'')]),
     with_playwright (block [
       try_except
         (block [
            call (ConnectOverCdp zhihu_CDP_URL),
            print (check_mark @ lit '' Connected to Clawdbot browser'')])
         (\<lambda>e. return (cross_mark @ lit '' Failed to connect to browser: '' @ e @ nl @ light_bulb
                  @ lit '' Make sure browser is running: clawdbot browser start --profile clawd'')),
       bind contexts (\<lambda>n.
         if_then (n = 0) (return (cross_mark @ lit '' No browser context found''))),
       call NewPage,
       try_except
         (post_article_try title content)
         (\<lambda>e. block [
            screenshot (lit ''/tmp/zhihu_error.png''),
            return (cross_mark @ lit '' Error: '' @ e @ nl
                    @ lit ''Screenshot saved to /tmp/zhihu_error.png'')])])])"


section \<open>The command line\<close>

text \<open>
  What \<open>main\<close> reads besides the parsed arguments: the file system (\<open>open(...).read()\<close>
  raises or gives the text), standard input, and the help text that argparse prints.
  A process ends normally, by \<open>sys.exit\<close>, or with an exception that nothing caught.
\<close>

record os_env =
  read_file :: "str \<Rightarrow> str + str"
  stdin_isatty :: bool
  stdin_text :: str
  help_text :: str

datatype exit = Finished | SystemExit nat | Uncaught str

text \<open>\<open>result = await f(...); print(result)\<close> at the end of \<open>main\<close>, run in a fresh process.\<close>

definition print_result :: "unit io \<Rightarrow> world \<Rightarrow> str list \<Rightarrow> exit \<times> action list \<times> str list" where
  "print_result f w out = (case f w [] of
      (Returned result, tr, out') \<Rightarrow> (Finished, tr, out @ out' @ [result])
    | (Next _, tr, out') \<Rightarrow> (Finished, tr, out @ out' @ [lit ''None''])
    | (Raised e, tr, out') \<Rightarrow> (Uncaught e, tr, out @ out'))"

record twitter_args =
  t_content :: "str option"
  t_file :: "str option"
  t_reply :: "str option"
  t_dry_run :: bool

text \<open>twitter_post.py, lines 179 to 190: the content, or how the process ends, and the lines printed.\<close>

definition twitter_load_content :: "twitter_args \<Rightarrow> os_env \<Rightarrow> (exit + str) \<times> str list" where
  "twitter_load_content args env =
    (if truthy (t_file args) then
       (case read_file env (str_of_opt (t_file args)) of
          Inl e \<Rightarrow> (Inl (Uncaught e), [])
        | Inr text \<Rightarrow> (Inr (strip text), []))
     else if truthy (t_content args) then (Inr (str_of_opt (t_content args)), [])
     else if \<not> stdin_isatty env then (Inr (strip (stdin_text env)), [])
     else (Inl (SystemExit 1), [help_text env]))"

definition twitter_main :: "twitter_args \<Rightarrow> os_env \<Rightarrow> world \<Rightarrow> exit \<times> action list \<times> str list" where
  "twitter_main args env w =
    (case twitter_load_content args env of
       (Inl status, out) \<Rightarrow> (status, [], out)
     | (Inr content, out) \<Rightarrow>
         if content = [] then (SystemExit 1, [], out @ [cross_mark @ lit '' No content provided''])
         else print_result (post_tweet content (t_reply args) (t_dry_run args)) w out)"

record zhihu_args =
  z_title :: "str option"
  z_content :: "str option"
  z_title_opt :: "str option"
  z_file :: "str option"
  z_dry_run :: bool

text \<open>\<open>a or b\<close> on optional strings.\<close>

definition or_opt :: "str option \<Rightarrow> str option \<Rightarrow> str option" where
  "or_opt a b = (if truthy a then a else b)"

text \<open>zhihu_post.py, lines 218 to 234.\<close>

definition zhihu_load_content :: "zhihu_args \<Rightarrow> os_env \<Rightarrow> (exit + str) \<times> str list" where
  "zhihu_load_content args env =
    (if truthy (z_file args) then
       (case read_file env (str_of_opt (z_file args)) of
          Inl e \<Rightarrow> (Inl (Uncaught e), [])
        | Inr text \<Rightarrow> (Inr (strip text), []))
     else if truthy (z_content args) then (Inr (str_of_opt (z_content args)), [])
     else if truthy (z_title args) \<and> \<not> truthy (z_title_opt args) then
       (if \<not> stdin_isatty env then (Inr (strip (stdin_text env)), [])
        else (Inl (SystemExit 1), [cross_mark @ lit '' Content is required'', help_text env]))
     else (Inl (SystemExit 1), [cross_mark @ lit '' Content is required'', help_text env]))"

definition zhihu_main :: "zhihu_args \<Rightarrow> os_env \<Rightarrow> world \<Rightarrow> exit \<times> action list \<times> str list" where
  "zhihu_main args env w =
    (let title = or_opt (z_title_opt args) (z_title args) in
     if \<not> truthy title then
       (SystemExit 1, [], [cross_mark @ lit '' Title is required'', help_text env])
     else
       (case zhihu_load_content args env of
          (Inl status, out) \<Rightarrow> (status, [], out)
        | (Inr content, out) \<Rightarrow>
            if content = [] then (SystemExit 1, [], out @ [cross_mark @ lit '' No content provided''])
            else print_result (post_article (str_of_opt title) content (z_dry_run args)) w out))"

section \<open>Observations on traces, and some browsers\<close>

text \<open>The texts passed to \<open>page.keyboard.type\<close>, in the order of the calls.\<close>

fun typed_texts :: "action list \<Rightarrow> str list" where
  "typed_texts [] = []"
| "typed_texts (KeyboardType text delay # tr) = text # typed_texts tr"
| "typed_texts (a # tr) = typed_texts tr"

text \<open>
  A browser in which every call succeeds, every locator matches one element, no button is
  disabled, the only button reads "publish" and the editor sits at an article's edit URL.
\<close>

definition agreeable :: world where
  "agreeable = \<lparr>
     unit_reply = (\<lambda>h a. Inr ()),
     count_reply = (\<lambda>h l. Inr 1),
     attribute_reply = (\<lambda>h l name. Inr None),
     text_reply = (\<lambda>h l. Inr fabu),
     disabled_reply = (\<lambda>h l. Inr False),
     contexts_reply = (\<lambda>h. 1),
     url_reply = (\<lambda>h. lit ''https://zhuanlan.zhihu.com/p/123/edit'')\<rparr>"

text \<open>Standard input piped with a body, and piped with white space only; no file can be read.\<close>

definition piped_body :: os_env where
  "piped_body = \<lparr>
     read_file = (\<lambda>path. Inl (lit ''No such file or directory'')),
     stdin_isatty = False,
     stdin_text = lit ''  body'' @ nl,
     help_text = lit ''usage''\<rparr>"

definition piped_blank :: os_env where
  "piped_blank = \<lparr>
     read_file = (\<lambda>path. Inl (lit ''No such file or directory'')),
     stdin_isatty = False,
     stdin_text = lit ''  '' @ nl,
     help_text = lit ''usage''\<rparr>"

text \<open>Command lines: \<open>twitter_post.py --dry-run\<close>, \<open>zhihu_post.py --dry-run T\<close> and
  \<open>zhihu_post.py --dry-run -t T\<close>.\<close>

definition tweet_from_stdin :: twitter_args where
  "tweet_from_stdin = \<lparr>t_content = None, t_file = None, t_reply = None, t_dry_run = True\<rparr>"

definition article_from_stdin :: zhihu_args where
  "article_from_stdin = \<lparr>z_title = Some (lit ''T''), z_content = None, z_title_opt = None,
     z_file = None, z_dry_run = True\<rparr>"

definition article_titled_by_option :: zhihu_args where
  "article_titled_by_option = \<lparr>z_title = None, z_content = None, z_title_opt = Some (lit ''T''),
     z_file = None, z_dry_run = True\<rparr>"

text \<open>Every action that a statement performs, in any browser and after any history, satisfies \<open>P\<close>.\<close>

definition emits :: "(action \<Rightarrow> bool) \<Rightarrow> 'a io \<Rightarrow> bool" where
  "emits P m = (\<forall>w h. list_all P (fst (snd (m w h))))"

text \<open>The endpoints passed to \<open>connect_over_cdp\<close>, in the order of the calls.\<close>

fun endpoints :: "action list \<Rightarrow> str list" where
  "endpoints [] = []"
| "endpoints (ConnectOverCdp url # tr) = url # endpoints tr"
| "endpoints (a # tr) = endpoints tr"

definition connects_to :: "str \<Rightarrow> action \<Rightarrow> bool" where
  "connects_to url a = (case a of ConnectOverCdp u \<Rightarrow> u = url | _ \<Rightarrow> True)"

text \<open>A browser like \<open>agreeable\<close>, except that opening a new page fails.\<close>

definition page_refused :: world where
  "page_refused = agreeable\<lparr>
     unit_reply := (\<lambda>h a. if a = NewPage then Inl (lit ''Target closed'') else Inr ())\<rparr>"

text \<open>
  The paths of the screenshots that were saved: of the calls of \<open>page.screenshot\<close> in a
  trace, performed in the world \<open>w\<close> after the history \<open>h\<close>, that returned.
\<close>

fun saved :: "world \<Rightarrow> action list \<Rightarrow> action list \<Rightarrow> str list" where
  "saved w h [] = []"
| "saved w h (Screenshot path # tr) =
     (if unit_reply w h (Screenshot path) = Inr () then [path] else [])
     @ saved w (h @ [Screenshot path]) tr"
| "saved w h (a # tr) = saved w (h @ [a]) tr"

text \<open>
  The status strings of a missing text box, title input or publish button, and of a post
  whose publication is uncertain.
\<close>

definition missing_or_uncertain :: "str \<Rightarrow> bool" where
  "missing_or_uncertain msg =
     (startswith msg (cross_mark @ lit '' Could not find tweet textbox'')
      \<or> startswith msg (cross_mark @ lit '' Could not find title input'')
      \<or> startswith msg (cross_mark @ lit '' Could not find publish button'')
      \<or> startswith msg (warning_sign @ lit ''  Uncertain if posted'')
      \<or> startswith msg (warning_sign @ lit ''  Uncertain if published''))"

text \<open>
  A statement run after the screenshots \<open>S\<close> were saved: when it returns a status string
  that satisfies \<open>Q\<close>, a screenshot saved by then has its path in the string; when it falls
  through, the screenshots \<open>S'\<close> are among those saved by then.
\<close>

definition shots :: "(str \<Rightarrow> bool) \<Rightarrow> str set \<Rightarrow> 'a io \<Rightarrow> str set \<Rightarrow> bool" where
  "shots Q S m S' = (\<forall>w h. case m w h of
      (Next x, tr, out) \<Rightarrow> S' \<subseteq> S \<union> set (saved w h tr)
    | (Returned msg, tr, out) \<Rightarrow> \<not> Q msg \<or> (\<exists>p \<in> S \<union> set (saved w h tr). contains p msg)
    | (Raised e, tr, out) \<Rightarrow> True)"

text \<open>A browser like \<open>agreeable\<close>, except that only the reply button of a tweet is found.\<close>

definition reply_button_only :: world where
  \<open>reply_button_only = agreeable\<lparr>
     count_reply := (\<lambda>h l. if l = First (Locator (lit ''[data-testid="reply"]'')) then Inr 1
                            else Inr 0)\<rparr>\<close>

text \<open>A browser like \<open>agreeable\<close>, except that the success dialog of Zhihu never appears.\<close>

definition no_success_dialog :: world where
  \<open>no_success_dialog = agreeable\<lparr>
     unit_reply := (\<lambda>h a. if a = WaitForSelector (lit ''text="'' @ fabu_chenggong @ lit ''"'') 15000
                           then Inl (lit ''Timeout 15000ms exceeded'') else Inr ())\<rparr>\<close>

text \<open>The locators passed to \<open>count\<close>, in the order of the calls.\<close>

fun probes :: "action list \<Rightarrow> locator list" where
  "probes [] = []"
| "probes (Count l # tr) = l # probes tr"
| "probes (a # tr) = probes tr"

text \<open>An action that, if it sleeps, sleeps for one of the durations \<open>D\<close>.\<close>

definition sleeps_in :: "nat set \<Rightarrow> action \<Rightarrow> bool" where
  "sleeps_in D a = (case a of WaitForTimeout ms \<Rightarrow> ms \<in> D | _ \<Rightarrow> True)"

text \<open>In any browser and after any history, a statement performs at most \<open>n\<close> actions that satisfy \<open>P\<close>.\<close>

definition costs :: "(action \<Rightarrow> bool) \<Rightarrow> nat \<Rightarrow> 'a io \<Rightarrow> bool" where
  "costs P n m = (\<forall>w h. length (filter P (fst (snd (m w h)))) \<le> n)"

definition is_probe :: "action \<Rightarrow> bool" where
  "is_probe a = (case a of Count l \<Rightarrow> True | _ \<Rightarrow> False)"

text \<open>The texts passed to \<open>fill\<close>, in the order of the calls.\<close>

fun filled_texts :: "action list \<Rightarrow> str list" where
  "filled_texts [] = []"
| "filled_texts (Fill l text # tr) = text # filled_texts tr"
| "filled_texts (a # tr) = filled_texts tr"

text \<open>What a single action types on the keyboard, and what it fills into a text box.\<close>

definition typed_by :: "action \<Rightarrow> str list" where
  "typed_by a = (case a of KeyboardType text delay \<Rightarrow> [text] | _ \<Rightarrow> [])"

definition filled_by :: "action \<Rightarrow> str list" where
  "filled_by a = (case a of Fill l text \<Rightarrow> [text] | _ \<Rightarrow> [])"

text \<open>
  A statement writes the list \<open>L\<close>, where \<open>f\<close> says what an action writes: in any browser and
  after any history, what its actions write, in order, is a prefix of \<open>L\<close>, and is all of \<open>L\<close>
  when the statement falls through to the next one.
\<close>

definition writes :: "(action \<Rightarrow> 'b list) \<Rightarrow> 'b list \<Rightarrow> 'a io \<Rightarrow> bool" where
  "writes f L m = (\<forall>w h. case m w h of (oc, tr, out) \<Rightarrow>
      (\<exists>k. concat (map f tr) = take k L)
      \<and> ((\<exists>x. oc = Next x) \<longrightarrow> concat (map f tr) = L))"

text \<open>
  A statement writes \<open>L\<close> before it performs an action of the kind \<open>M\<close>: what its actions
  write is a prefix of \<open>L\<close>, and is all of \<open>L\<close> in every run that performs such an action.
\<close>

definition staged :: "(action \<Rightarrow> 'b list) \<Rightarrow> (action \<Rightarrow> bool) \<Rightarrow> 'b list \<Rightarrow> 'a io \<Rightarrow> bool" where
  "staged f M L m = (\<forall>w h. case m w h of (oc, tr, out) \<Rightarrow>
      (\<exists>k. concat (map f tr) = take k L)
      \<and> ((\<exists>a \<in> set tr. M a) \<longrightarrow> concat (map f tr) = L))"

section \<open>Running statements\<close>

named_theorems run

lemma pure_run [run]: "pure x w h = (Next x, [], [])"
  by (simp add: pure_def)

lemma return_run [run]: "return v w h = (Returned v, [], [])"
  by (simp add: return_def)

lemma raise_run [run]: "raise e w h = (Raised e, [], [])"
  by (simp add: raise_def)

lemma print_run [run]: "print s w h = (Next (), [], [s])"
  by (simp add: print_def)

lemma bind_run [run]: "bind m f w h = (case m w h of
      (Next x, tr, out) \<Rightarrow> (case f x w (h @ tr) of (oc, tr', out') \<Rightarrow> (oc, tr @ tr', out @ out'))
    | (Returned v, tr, out) \<Rightarrow> (Returned v, tr, out)
    | (Raised e, tr, out) \<Rightarrow> (Raised e, tr, out))"
  by (simp add: bind_def)

lemma seq_run [run]: "seq m k w h = (case m w h of
      (Next x, tr, out) \<Rightarrow> (case k w (h @ tr) of (oc, tr', out') \<Rightarrow> (oc, tr @ tr', out @ out'))
    | (Returned v, tr, out) \<Rightarrow> (Returned v, tr, out)
    | (Raised e, tr, out) \<Rightarrow> (Raised e, tr, out))"
  by (simp add: seq_def bind_def)

lemma block_Nil_run [run]: "block [] w h = (Next (), [], [])"
  by (simp add: pure_def)

lemma block_Cons_run [run]: "block (m # ms) w h = seq m (block ms) w h"
  by simp

lemma if_then_run [run]: "if_then c m w h = (if c then m w h else (Next (), [], []))"
  by (simp add: if_then_def pure_def)

lemma perform_run [run]: "perform a reply w h = (case reply w h of
      Inl e \<Rightarrow> (Raised e, [a], [])
    | Inr v \<Rightarrow> (Next v, [a], []))"
  by (simp add: perform_def)

lemma call_run [run]: "call a w h = (case unit_reply w h a of
      Inl e \<Rightarrow> (Raised e, [a], [])
    | Inr v \<Rightarrow> (Next (), [a], []))"
  by (simp add: call_def perform_def split: sum.splits)

lemma try_except_run [run]: "try_except m handler w h = (case m w h of
      (Raised e, tr, out) \<Rightarrow>
        (case handler e w (h @ tr) of (oc, tr', out') \<Rightarrow> (oc, tr @ tr', out @ out'))
    | (Next x, tr, out) \<Rightarrow> (Next x, tr, out)
    | (Returned v, tr, out) \<Rightarrow> (Returned v, tr, out))"
  by (simp add: try_except_def split: prod.splits outcome.splits)

lemma try_finally_run [run]: "try_finally m fin w h = (case m w h of (oc, tr, out) \<Rightarrow>
      (case fin w (h @ tr) of
         (Next _, tr', out') \<Rightarrow> (oc, tr @ tr', out @ out')
       | (Returned v, tr', out') \<Rightarrow> (Returned v, tr @ tr', out @ out')
       | (Raised e, tr', out') \<Rightarrow> (Raised e, tr @ tr', out @ out')))"
  by (simp add: try_finally_def)

lemma contexts_run [run]: "contexts w h = (Next (contexts_reply w h), [], [])"
  by (simp add: contexts_def)

lemma page_url_run [run]: "page_url w h = (Next (url_reply w h), [], [])"
  by (simp add: page_url_def)

lemmas statement_defs = with_playwright_def count_def get_attribute_def inner_text_def
  is_disabled_def goto_def wait_for_timeout_def wait_for_selector_def screenshot_def
  keyboard_type_def unless_found_def either_found_def item_def

lemma length_lit [simp]: "length (lit s) = length s"
  by (simp add: lit_def)

lemma lit_simps: "lit [] = []" "lit (c # cs) = of_char c # lit cs"
  by (simp_all add: lit_def)

lemmas string_defs = lit_simps startswith_def split_def strip_def isspace_def

section \<open>Dry runs\<close>

lemma post_tweet_dry_run:
  "post_tweet content reply_to True w h =
   (Returned (lit ''DRY_RUN''), [],
    (if 280 < length content
     then [warning_sign @ lit ''  Warning: Tweet is '' @ str_of_nat (length content)
               @ lit '' chars (280 limit for free accounts)'']
     else []) @
    [memo @ lit '' Preview:'' @ nl @ content @ nl,
     bar_chart @ lit '' Length: '' @ str_of_nat (length content) @ lit '' chars''] @
    (if truthy reply_to then [hooked_arrow @ lit ''  Reply to: '' @ str_of_opt reply_to] else []))"
  unfolding post_tweet_def by (simp add: run del: block.simps)

lemma post_article_dry_run:
  "post_article title content True w h =
   (Returned (lit ''DRY_RUN''), [],
    (if 100 < length title
     then [warning_sign @ lit ''  Warning: Title is '' @ str_of_nat (length title)
               @ lit '' chars (100 limit)'']
     else []) @
    [memo @ lit '' Preview:'',
     pushpin @ lit '' Title: '' @ take 100 title,
     bar_chart @ lit '' Title length: '' @ str_of_nat (min (length title) 100) @ lit '' chars'',
     bar_chart @ lit '' Body length: '' @ str_of_nat (length content) @ lit '' chars'',
     nl @ lit ''--- Content ---'' @ nl @ take 500 content
       @ (if 500 < length content then lit ''...'' else [])])"
  unfolding post_article_def by (simp add: run slice_def min_def del: block.simps)

text \<open>
  C2. With the dry-run flag set, \<open>post_tweet\<close> and \<open>post_article\<close> return the string
  "DRY_RUN" in every browser and after every history, perform no browser action at all (the
  trace is empty: Playwright is not even started, no connection is attempted, no page is
  touched), and what they print is the length warning, if the limit is exceeded, followed by
  the preview of the payload: the tweet and its length (and the reply target), or the
  article's title, the two lengths and the body excerpt.
\<close>

theorem dry_run_previews_without_action:
  "post_tweet content reply_to True w h =
     (Returned (lit ''DRY_RUN''), [],
      (if 280 < length content
       then [warning_sign @ lit ''  Warning: Tweet is '' @ str_of_nat (length content)
                 @ lit '' chars (280 limit for free accounts)'']
       else []) @
      [memo @ lit '' Preview:'' @ nl @ content @ nl,
       bar_chart @ lit '' Length: '' @ str_of_nat (length content) @ lit '' chars''] @
      (if truthy reply_to then [hooked_arrow @ lit ''  Reply to: '' @ str_of_opt reply_to] else []))
   \<and> post_article title body True w h =
     (Returned (lit ''DRY_RUN''), [],
      (if 100 < length title
       then [warning_sign @ lit ''  Warning: Title is '' @ str_of_nat (length title)
                 @ lit '' chars (100 limit)'']
       else []) @
      [memo @ lit '' Preview:'',
       pushpin @ lit '' Title: '' @ take 100 title,
       bar_chart @ lit '' Title length: '' @ str_of_nat (min (length title) 100) @ lit '' chars'',
       bar_chart @ lit '' Body length: '' @ str_of_nat (length body) @ lit '' chars'',
       nl @ lit ''--- Content ---'' @ nl @ take 500 body
         @ (if 500 < length body then lit ''...'' else [])])"
  by (simp only: post_tweet_dry_run post_article_dry_run simp_thms)

text \<open>
  C8. The last line of the Zhihu dry-run preview is the header followed by the body excerpt:
  the whole content and nothing more when it has at most 500 characters, and otherwise its
  first 500 characters followed by "...".
\<close>

theorem zhihu_preview_excerpt:
  "\<exists>out. post_article title content True w h = (Returned (lit ''DRY_RUN''), [], out)
     \<and> out \<noteq> []
     \<and> last out = nl @ lit ''--- Content ---'' @ nl
          @ (if length content \<le> 500 then content else take 500 content @ lit ''...'')"
  by (simp add: post_article_dry_run)

section \<open>The typing loop of the article body\<close>

lemma typed_texts_append: "typed_texts (xs @ ys) = typed_texts xs @ typed_texts ys"
  by (induction xs rule: typed_texts.induct) simp_all

lemma range3_less: "i \<in> set (range3 i0 n k) \<Longrightarrow> i < n"
proof (induction i0 n k rule: range3.induct)
  case (1 i0 stop step)
  then show ?case by (simp add: range3.simps [of i0] split: if_splits) blast
qed

lemma range3_butlast: "i \<in> set (butlast (range3 i0 n k)) \<Longrightarrow> i + k < n"
proof (induction i0 n k rule: range3.induct)
  case (1 i0 stop step)
  show ?case
  proof (cases "0 < step \<and> i0 < stop")
    case True
    then have r: "range3 i0 stop step = i0 # range3 (i0 + step) stop step"
      by (simp add: range3.simps [of i0])
    show ?thesis
    proof (cases "range3 (i0 + step) stop step = []")
      case True
      with r "1.prems" show ?thesis by simp
    next
      case False
      then have "i0 + step < stop" by (simp add: range3.simps [of "i0 + step"] split: if_splits)
      with False r "1.prems" "1.IH" True show ?thesis by auto
    qed
  next
    case False
    with "1.prems" show ?thesis by (simp add: range3.simps [of i0])
  qed
qed

lemma concat_slices:
  "0 < k \<Longrightarrow> n = length s \<Longrightarrow>
   concat (map (\<lambda>i. slice s i (i + k)) (range3 i n k)) = drop i s"
proof (induction i n k rule: range3.induct)
  case (1 i stop step)
  show ?case
  proof (cases "i < stop")
    case True
    with "1.prems" have r: "range3 i stop step = i # range3 (i + step) stop step"
      by (simp add: range3.simps [of i])
    have "take step (drop i s) @ drop (step + i) s = drop i s"
      by (metis append_take_drop_id drop_drop)
    with r "1.IH" "1.prems" True show ?thesis by (simp add: slice_def add.commute)
  next
    case False
    with "1.prems" show ?thesis by (simp add: range3.simps [of i])
  qed
qed

lemma type_chunk_run:
  "type_chunk content i u w h = (oc, tr, out) \<Longrightarrow>
   typed_texts tr = [slice content i (i + chunk_size)] \<and> out = []
   \<and> (oc = Next (Continue, ()) \<or> (\<exists>e. oc = Raised e))"
  by (auto simp: type_chunk_def keyboard_type_def wait_for_timeout_def Let_def run
           split: sum.splits)

lemma type_loop:
  "for_loop xs () (type_chunk content) w h = (oc, tr, out) \<Longrightarrow>
   \<exists>k \<le> length xs. typed_texts tr = map (\<lambda>i. slice content i (i + chunk_size)) (take k xs)
      \<and> (oc = Next () \<longrightarrow> k = length xs)"
proof (induction xs arbitrary: h oc tr out)
  case Nil
  then show ?case by simp
next
  case (Cons x xs)
  obtain oc1 tr1 out1 where b: "type_chunk content x () w h = (oc1, tr1, out1)"
    by (cases "type_chunk content x () w h") auto
  from type_chunk_run [OF b] have t1: "typed_texts tr1 = [slice content x (x + chunk_size)]"
    and o1: "oc1 = Next (Continue, ()) \<or> (\<exists>e. oc1 = Raised e)" by auto
  from o1 show ?case
  proof
    assume c: "oc1 = Next (Continue, ())"
    obtain oc2 tr2 out2 where r: "for_loop xs () (type_chunk content) w (h @ tr1) = (oc2, tr2, out2)"
      by (cases "for_loop xs () (type_chunk content) w (h @ tr1)") auto
    from Cons.IH [OF r] obtain k where k: "k \<le> length xs"
      "typed_texts tr2 = map (\<lambda>i. slice content i (i + chunk_size)) (take k xs)"
      "oc2 = Next () \<longrightarrow> k = length xs" by blast
    from Cons.prems b c r have "oc = oc2" "tr = tr1 @ tr2" by auto
    with k t1 show ?thesis
      by (intro exI [of _ "Suc k"]) (simp add: typed_texts_append)
  next
    assume "\<exists>e. oc1 = Raised e"
    with Cons.prems b have "tr = tr1" "oc \<noteq> Next ()" by auto
    with t1 show ?thesis by (intro exI [of _ "Suc 0"]) simp
  qed
qed

text \<open>
  The loop that types the article body takes the slices of the content that start at
  0, 50, 100, ... below its length. Whatever the browser does, the texts it types are the
  first chunks of that list, in order, each of 1 to 50 characters; and when the loop runs to
  its end, every typed chunk but the last has exactly 50 characters and the typed chunks,
  concatenated in order, are the content.
\<close>

lemma type_loop_chunks:
  assumes "for_loop (range3 0 (length content) chunk_size) () (type_chunk content) w h = (oc, tr, out)"
  shows "(\<exists>k. typed_texts tr
            = take k (map (\<lambda>i. slice content i (i + 50)) (range3 0 (length content) 50)))
       \<and> (\<forall>c \<in> set (typed_texts tr). 0 < length c \<and> length c \<le> 50)
       \<and> (oc = Next () \<longrightarrow>
            concat (typed_texts tr) = content
          \<and> (\<forall>c \<in> set (butlast (typed_texts tr)). length c = 50))"
proof -
  let ?starts = "range3 0 (length content) chunk_size"
  let ?f = "\<lambda>i. slice content i (i + chunk_size)"
  from type_loop [OF assms] obtain k where k: "k \<le> length ?starts"
    "typed_texts tr = map ?f (take k ?starts)" "oc = Next () \<longrightarrow> k = length ?starts"
    by blast
  have a: "\<exists>k. typed_texts tr = take k (map (\<lambda>i. slice content i (i + 50)) (range3 0 (length content) 50))"
    using k(2) by (auto simp: chunk_size_def take_map)
  have b: "\<forall>c \<in> set (typed_texts tr). 0 < length c \<and> length c \<le> 50"
  proof
    fix c assume "c \<in> set (typed_texts tr)"
    with k(2) obtain i where "i \<in> set (take k ?starts)" "c = ?f i" by auto
    then have "i \<in> set ?starts" by (auto dest: in_set_takeD)
    from range3_less [OF this] \<open>c = ?f i\<close> show "0 < length c \<and> length c \<le> 50"
      by (simp add: slice_def chunk_size_def)
  qed
  have c: "concat (typed_texts tr) = content
          \<and> (\<forall>c \<in> set (butlast (typed_texts tr)). length c = 50)" if "oc = Next ()"
  proof
    from that k have t: "typed_texts tr = map ?f ?starts" by simp
    then show "concat (typed_texts tr) = content"
      using concat_slices [of chunk_size "length content" content 0] by (simp add: chunk_size_def)
    show "\<forall>c \<in> set (butlast (typed_texts tr)). length c = 50"
    proof
      fix c assume "c \<in> set (butlast (typed_texts tr))"
      with t obtain i where "i \<in> set (butlast ?starts)" "c = ?f i"
        by (auto simp: map_butlast [symmetric])
      from range3_butlast [OF this(1)] \<open>c = ?f i\<close> show "length c = 50"
        by (simp add: slice_def chunk_size_def)
    qed
  qed
  from a b c show ?thesis by blast
qed

section \<open>Loading the content\<close>

lemma lit_Nil_iff [simp]: "lit s = [] \<longleftrightarrow> s = []"
  by (simp add: lit_def)

lemma strip_blank: "list_all isspace s \<Longrightarrow> strip s = []"
proof -
  assume "list_all isspace s"
  then have d: "dropWhile isspace s = []" by (induction s) simp_all
  show ?thesis unfolding strip_def d by simp
qed

lemma lit_blank: "strip (lit ''  '' @ nl) = []"
  by (rule strip_blank) (simp add: lit_def nl_def isspace_def)

lemma lit_body: "strip (lit ''  body'' @ nl) = lit ''body''"
  by (simp add: strip_def lit_def nl_def isspace_def)

text \<open>
  C9. When the content that \<open>main\<close> resolved is the empty string (a file or a piped standard
  input of white space only is stripped to it), both scripts print "No content provided"
  as their last line and exit with status 1 without any browser action. In every run, either
  the process ends while loading the content, with an empty trace, or the posting operation
  is called with a content that is not empty.
\<close>

theorem empty_content_never_posted:
  "(fst (twitter_load_content targs env) = Inr [] \<longrightarrow>
      twitter_main targs env w
      = (SystemExit 1, [], snd (twitter_load_content targs env) @ [cross_mark @ lit '' No content provided'']))
   \<and> (truthy (or_opt (z_title_opt zargs) (z_title zargs)) \<and> fst (zhihu_load_content zargs env) = Inr [] \<longrightarrow>
      zhihu_main zargs env w
      = (SystemExit 1, [], snd (zhihu_load_content zargs env) @ [cross_mark @ lit '' No content provided'']))
   \<and> (truthy (t_file targs) \<and> read_file env (str_of_opt (t_file targs)) = Inr text
        \<and> list_all isspace text \<longrightarrow>
      twitter_main targs env w = (SystemExit 1, [], [cross_mark @ lit '' No content provided'']))
   \<and> (\<not> truthy (t_file targs) \<and> \<not> truthy (t_content targs) \<and> \<not> stdin_isatty env
        \<and> list_all isspace (stdin_text env) \<longrightarrow>
      twitter_main targs env w = (SystemExit 1, [], [cross_mark @ lit '' No content provided'']))
   \<and> (truthy (or_opt (z_title_opt zargs) (z_title zargs)) \<and> truthy (z_file zargs)
        \<and> read_file env (str_of_opt (z_file zargs)) = Inr text \<and> list_all isspace text \<longrightarrow>
      zhihu_main zargs env w = (SystemExit 1, [], [cross_mark @ lit '' No content provided'']))
   \<and> (truthy (z_title zargs) \<and> \<not> truthy (z_title_opt zargs) \<and> \<not> truthy (z_file zargs)
        \<and> \<not> truthy (z_content zargs) \<and> \<not> stdin_isatty env
        \<and> list_all isspace (stdin_text env) \<longrightarrow>
      zhihu_main zargs env w = (SystemExit 1, [], [cross_mark @ lit '' No content provided'']))
   \<and> ((\<exists>status out. twitter_main targs env w = (status, [], out) \<and> status \<noteq> Finished)
      \<or> (\<exists>content out. content \<noteq> []
            \<and> twitter_main targs env w
              = print_result (post_tweet content (t_reply targs) (t_dry_run targs)) w out))
   \<and> ((\<exists>status out. zhihu_main zargs env w = (status, [], out) \<and> status \<noteq> Finished)
      \<or> (\<exists>title content out. content \<noteq> []
            \<and> zhihu_main zargs env w
              = print_result (post_article title content (z_dry_run zargs)) w out))"
proof -
  obtain r out where l: "twitter_load_content targs env = (r, out)"
    by (cases "twitter_load_content targs env") auto
  obtain r' out' where l': "zhihu_load_content zargs env = (r', out')"
    by (cases "zhihu_load_content zargs env") auto
  have st: "\<And>st. r = Inl st \<Longrightarrow> st \<noteq> Finished"
    using l by (auto simp: twitter_load_content_def split: if_splits sum.splits)
  have st': "\<And>st. r' = Inl st \<Longrightarrow> st \<noteq> Finished"
    using l' by (auto simp: zhihu_load_content_def split: if_splits sum.splits)
  have 1: "fst (twitter_load_content targs env) = Inr [] \<longrightarrow>
      twitter_main targs env w
      = (SystemExit 1, [], snd (twitter_load_content targs env) @ [cross_mark @ lit '' No content provided''])"
    using l by (simp add: twitter_main_def)
  have 2: "truthy (or_opt (z_title_opt zargs) (z_title zargs)) \<and> fst (zhihu_load_content zargs env) = Inr [] \<longrightarrow>
      zhihu_main zargs env w
      = (SystemExit 1, [], snd (zhihu_load_content zargs env) @ [cross_mark @ lit '' No content provided''])"
    using l' by (simp add: zhihu_main_def)
  have 3: "(\<exists>status out. twitter_main targs env w = (status, [], out) \<and> status \<noteq> Finished)
      \<or> (\<exists>content out. content \<noteq> []
            \<and> twitter_main targs env w
              = print_result (post_tweet content (t_reply targs) (t_dry_run targs)) w out)"
    using l st by (cases r) (auto simp: twitter_main_def)
  have 4: "(\<exists>status out. zhihu_main zargs env w = (status, [], out) \<and> status \<noteq> Finished)
      \<or> (\<exists>title content out. content \<noteq> []
            \<and> zhihu_main zargs env w
              = print_result (post_article title content (z_dry_run zargs)) w out)"
  proof (cases "truthy (or_opt (z_title_opt zargs) (z_title zargs))")
    case False
    then show ?thesis by (simp add: zhihu_main_def Let_def)
  next
    case True
    show ?thesis
    proof (cases r')
      case (Inl st)
      with l' st' True show ?thesis by (simp add: zhihu_main_def Let_def)
    next
      case (Inr content)
      show ?thesis
      proof (cases "content = []")
        case True
        with l' Inr \<open>truthy _\<close> show ?thesis by (simp add: zhihu_main_def Let_def)
      next
        case False
        with l' Inr True have "zhihu_main zargs env w
          = print_result (post_article (str_of_opt (or_opt (z_title_opt zargs) (z_title zargs)))
              content (z_dry_run zargs)) w out'"
          by (simp add: zhihu_main_def Let_def)
        with False show ?thesis by blast
      qed
    qed
  qed
  have 5: "truthy (t_file targs) \<and> read_file env (str_of_opt (t_file targs)) = Inr text
        \<and> list_all isspace text \<longrightarrow>
      twitter_main targs env w = (SystemExit 1, [], [cross_mark @ lit '' No content provided''])"
    by (simp add: twitter_main_def twitter_load_content_def strip_blank)
  have 6: "\<not> truthy (t_file targs) \<and> \<not> truthy (t_content targs) \<and> \<not> stdin_isatty env
        \<and> list_all isspace (stdin_text env) \<longrightarrow>
      twitter_main targs env w = (SystemExit 1, [], [cross_mark @ lit '' No content provided''])"
    by (simp add: twitter_main_def twitter_load_content_def strip_blank)
  have 7: "truthy (or_opt (z_title_opt zargs) (z_title zargs)) \<and> truthy (z_file zargs)
        \<and> read_file env (str_of_opt (z_file zargs)) = Inr text \<and> list_all isspace text \<longrightarrow>
      zhihu_main zargs env w = (SystemExit 1, [], [cross_mark @ lit '' No content provided''])"
    by (simp add: zhihu_main_def zhihu_load_content_def strip_blank)
  have 8: "truthy (z_title zargs) \<and> \<not> truthy (z_title_opt zargs) \<and> \<not> truthy (z_file zargs)
        \<and> \<not> truthy (z_content zargs) \<and> \<not> stdin_isatty env
        \<and> list_all isspace (stdin_text env) \<longrightarrow>
      zhihu_main zargs env w = (SystemExit 1, [], [cross_mark @ lit '' No content provided''])"
    by (simp add: zhihu_main_def zhihu_load_content_def or_opt_def strip_blank)
  from 1 2 3 4 5 6 7 8 show ?thesis by blast
qed

lemma tweet_blank: "twitter_load_content tweet_from_stdin piped_blank = (Inr [], [])"
  by (simp add: twitter_load_content_def tweet_from_stdin_def piped_blank_def lit_blank)

lemma article_blank: "zhihu_load_content article_from_stdin piped_blank = (Inr [], [])"
  by (simp add: zhihu_load_content_def article_from_stdin_def piped_blank_def lit_blank)

theorem empty_content_never_posted_witness:
  "twitter_load_content tweet_from_stdin piped_blank = (Inr [], [])
   \<and> twitter_main tweet_from_stdin piped_blank agreeable
     = (SystemExit 1, [], [cross_mark @ lit '' No content provided''])
   \<and> zhihu_load_content article_from_stdin piped_blank = (Inr [], [])
   \<and> zhihu_main article_from_stdin piped_blank agreeable
     = (SystemExit 1, [], [cross_mark @ lit '' No content provided''])"
  using empty_content_never_posted [where targs = tweet_from_stdin and env = piped_blank
      and w = agreeable and zargs = article_from_stdin]
    tweet_blank article_blank
  by (simp add: or_opt_def article_from_stdin_def)

text \<open>
  C4, as the claim states it, fails for \<open>zhihu_post.py\<close>: with the title given by \<open>-t\<close>, no
  file and no content argument, standard input is piped and holds a body, yet the script does
  not read it; it prints "Content is required" and the help and exits with status 1.
\<close>

theorem zhihu_option_title_ignores_stdin:
  "z_file article_titled_by_option = None
   \<and> z_content article_titled_by_option = None
   \<and> stdin_isatty piped_body = False
   \<and> strip (stdin_text piped_body) = lit ''body''
   \<and> zhihu_main article_titled_by_option piped_body agreeable
     = (SystemExit 1, [], [cross_mark @ lit '' Content is required'', lit ''usage''])"
  by (simp add: zhihu_main_def zhihu_load_content_def article_titled_by_option_def piped_body_def
        or_opt_def lit_body)

text \<open>
  C4, amended. Content loading resolves its sources in a fixed order. A file path that is not
  empty gives the file's text, stripped. Otherwise a content argument that is not empty is
  used as it is. Otherwise \<open>twitter_post.py\<close> reads standard input, stripped, when it is not
  a terminal, and else prints the help and exits with status 1 without posting; and
  \<open>zhihu_post.py\<close> reads standard input, stripped, only when moreover the title was given
  positionally and \<open>-t\<close> was not, and else (a title being present) prints "Content is
  required" and the help and exits with status 1 without posting.
\<close>

theorem content_sources_in_order:
  "(truthy (t_file targs) \<and> read_file env (str_of_opt (t_file targs)) = Inr text \<longrightarrow>
      twitter_load_content targs env = (Inr (strip text), []))
   \<and> (\<not> truthy (t_file targs) \<and> truthy (t_content targs) \<longrightarrow>
      twitter_load_content targs env = (Inr (str_of_opt (t_content targs)), []))
   \<and> (\<not> truthy (t_file targs) \<and> \<not> truthy (t_content targs) \<and> \<not> stdin_isatty env \<longrightarrow>
      twitter_load_content targs env = (Inr (strip (stdin_text env)), []))
   \<and> (\<not> truthy (t_file targs) \<and> \<not> truthy (t_content targs) \<and> stdin_isatty env \<longrightarrow>
      twitter_main targs env w = (SystemExit 1, [], [help_text env]))
   \<and> (truthy (z_file zargs) \<and> read_file env (str_of_opt (z_file zargs)) = Inr text \<longrightarrow>
      zhihu_load_content zargs env = (Inr (strip text), []))
   \<and> (\<not> truthy (z_file zargs) \<and> truthy (z_content zargs) \<longrightarrow>
      zhihu_load_content zargs env = (Inr (str_of_opt (z_content zargs)), []))
   \<and> (\<not> truthy (z_file zargs) \<and> \<not> truthy (z_content zargs)
        \<and> truthy (z_title zargs) \<and> \<not> truthy (z_title_opt zargs) \<and> \<not> stdin_isatty env \<longrightarrow>
      zhihu_load_content zargs env = (Inr (strip (stdin_text env)), []))
   \<and> (\<not> truthy (z_file zargs) \<and> \<not> truthy (z_content zargs)
        \<and> (truthy (z_title_opt zargs) \<or> (truthy (z_title zargs) \<and> stdin_isatty env)) \<longrightarrow>
      zhihu_main zargs env w
      = (SystemExit 1, [], [cross_mark @ lit '' Content is required'', help_text env]))"
  by (auto simp: twitter_load_content_def twitter_main_def zhihu_load_content_def zhihu_main_def
        or_opt_def Let_def)

theorem content_sources_in_order_witness:
  "twitter_load_content tweet_from_stdin piped_body = (Inr (lit ''body''), [])
   \<and> zhihu_load_content article_from_stdin piped_body = (Inr (lit ''body''), [])"
  using content_sources_in_order [where targs = tweet_from_stdin and env = piped_body
      and zargs = article_from_stdin]
  by (simp add: tweet_from_stdin_def article_from_stdin_def piped_body_def lit_body)

section \<open>What a statement can emit\<close>

named_theorems emits_intros

lemma emitsD: "emits P m \<Longrightarrow> m w h = (oc, tr, out) \<Longrightarrow> list_all P tr"
  by (metis emits_def fst_conv snd_conv)

lemma emitsI: "(\<And>w h oc tr out. m w h = (oc, tr, out) \<Longrightarrow> list_all P tr) \<Longrightarrow> emits P m"
  unfolding emits_def by (metis prod.collapse)

lemma emits_pure [emits_intros]: "emits P (pure x)"
  by (simp add: emits_def run)

lemma emits_return [emits_intros]: "emits P (return v)"
  by (simp add: emits_def run)

lemma emits_raise [emits_intros]: "emits P (raise e)"
  by (simp add: emits_def run)

lemma emits_print [emits_intros]: "emits P (print s)"
  by (simp add: emits_def run)

lemma emits_contexts [emits_intros]: "emits P contexts"
  by (simp add: emits_def contexts_def)

lemma emits_page_url [emits_intros]: "emits P page_url"
  by (simp add: emits_def page_url_def)

lemma emits_perform: "P a \<Longrightarrow> emits P (perform a reply)"
  by (simp add: emits_def run split: sum.splits)

lemma emits_call [emits_intros]: "P a \<Longrightarrow> emits P (call a)"
  by (simp add: call_def emits_perform)

lemma emits_count [emits_intros]: "P (Count l) \<Longrightarrow> emits P (count l)"
  by (simp add: count_def emits_perform)

lemma emits_get_attribute [emits_intros]: "P (GetAttribute l name) \<Longrightarrow> emits P (get_attribute l name)"
  by (simp add: get_attribute_def emits_perform)

lemma emits_inner_text [emits_intros]: "P (InnerText l) \<Longrightarrow> emits P (inner_text l)"
  by (simp add: inner_text_def emits_perform)

lemma emits_is_disabled [emits_intros]: "P (IsDisabled l) \<Longrightarrow> emits P (is_disabled l)"
  by (simp add: is_disabled_def emits_perform)

lemma emits_goto [emits_intros]: "P (Goto url u t) \<Longrightarrow> emits P (goto url u t)"
  by (simp add: goto_def emits_call)

lemma emits_wait_for_timeout [emits_intros]: "P (WaitForTimeout ms) \<Longrightarrow> emits P (wait_for_timeout ms)"
  by (simp add: wait_for_timeout_def emits_call)

lemma emits_wait_for_selector [emits_intros]:
  "P (WaitForSelector s t) \<Longrightarrow> emits P (wait_for_selector s t)"
  by (simp add: wait_for_selector_def emits_call)

lemma emits_screenshot [emits_intros]: "P (Screenshot path) \<Longrightarrow> emits P (screenshot path)"
  by (simp add: screenshot_def emits_call)

lemma emits_keyboard_type [emits_intros]: "P (KeyboardType t d) \<Longrightarrow> emits P (keyboard_type t d)"
  by (simp add: keyboard_type_def emits_call)

lemma emits_bind [emits_intros]:
  assumes "emits P m" and "\<And>x. emits P (f x)"
  shows "emits P (bind m f)"
proof (rule emitsI)
  fix w h oc tr out
  assume r: "bind m f w h = (oc, tr, out)"
  obtain oc1 tr1 out1 where m: "m w h = (oc1, tr1, out1)" by (cases "m w h") auto
  from emitsD [OF assms(1) m] have p1: "list_all P tr1" .
  show "list_all P tr"
  proof (cases oc1)
    case (Next x)
    obtain oc2 tr2 out2 where f: "f x w (h @ tr1) = (oc2, tr2, out2)"
      by (cases "f x w (h @ tr1)") auto
    from emitsD [OF assms(2) f] p1 r m Next f show ?thesis by (auto simp: run)
  next
    case (Returned v)
    with r m p1 show ?thesis by (simp add: run)
  next
    case (Raised e)
    with r m p1 show ?thesis by (simp add: run)
  qed
qed

lemma emits_seq [emits_intros]: "emits P m \<Longrightarrow> emits P k \<Longrightarrow> emits P (seq m k)"
  by (simp add: seq_def emits_bind)

lemma emits_block_Nil [emits_intros]: "emits P (block [])"
  by (simp add: emits_pure)

lemma emits_block_Cons [emits_intros]: "emits P m \<Longrightarrow> emits P (block ms) \<Longrightarrow> emits P (block (m # ms))"
  by (simp add: emits_seq)

lemma emits_if_then [emits_intros]: "(c \<Longrightarrow> emits P m) \<Longrightarrow> emits P (if_then c m)"
  by (simp add: if_then_def emits_pure)

lemma emits_if [emits_intros]:
  "(c \<Longrightarrow> emits P a) \<Longrightarrow> (\<not> c \<Longrightarrow> emits P b) \<Longrightarrow> emits P (if c then a else b)"
  by simp

lemma emits_case_option [emits_intros]:
  "(x = None \<Longrightarrow> emits P a) \<Longrightarrow> (\<And>y. x = Some y \<Longrightarrow> emits P (b y))
   \<Longrightarrow> emits P (case x of None \<Rightarrow> a | Some y \<Rightarrow> b y)"
  by (cases x) simp_all

lemma emits_try_except [emits_intros]:
  assumes "emits P m" and "\<And>e. emits P (handler e)"
  shows "emits P (try_except m handler)"
proof (rule emitsI)
  fix w h oc tr out
  assume r: "try_except m handler w h = (oc, tr, out)"
  obtain oc1 tr1 out1 where m: "m w h = (oc1, tr1, out1)" by (cases "m w h") auto
  from emitsD [OF assms(1) m] have p1: "list_all P tr1" .
  show "list_all P tr"
  proof (cases oc1)
    case (Raised e)
    obtain oc2 tr2 out2 where f: "handler e w (h @ tr1) = (oc2, tr2, out2)"
      by (cases "handler e w (h @ tr1)") auto
    from emitsD [OF assms(2) f] p1 r m Raised f show ?thesis by (auto simp: try_except_def)
  next
    case (Returned v)
    with r m p1 show ?thesis by (simp add: try_except_def)
  next
    case (Next x)
    with r m p1 show ?thesis by (simp add: try_except_def)
  qed
qed

lemma emits_try_finally [emits_intros]:
  assumes "emits P m" and "emits P fin"
  shows "emits P (try_finally m fin)"
proof (rule emitsI)
  fix w h oc tr out
  assume r: "try_finally m fin w h = (oc, tr, out)"
  obtain oc1 tr1 out1 where m: "m w h = (oc1, tr1, out1)" by (cases "m w h") auto
  obtain oc2 tr2 out2 where f: "fin w (h @ tr1) = (oc2, tr2, out2)"
    by (cases "fin w (h @ tr1)") auto
  from emitsD [OF assms(1) m] emitsD [OF assms(2) f] r m f show "list_all P tr"
    by (cases oc2) (auto simp: try_finally_def)
qed

lemma emits_for_loop [emits_intros]:
  assumes "\<And>x v. emits P (body x v)"
  shows "emits P (for_loop xs v body)"
proof (rule emitsI)
  fix w h oc tr out
  assume "for_loop xs v body w h = (oc, tr, out)"
  then show "list_all P tr"
  proof (induction xs arbitrary: v h oc tr out)
    case Nil
    then show ?case by simp
  next
    case (Cons x xs)
    obtain oc1 tr1 out1 where b: "body x v w h = (oc1, tr1, out1)" by (cases "body x v w h") auto
    from emitsD [OF assms b] have p1: "list_all P tr1" .
    show ?case
    proof (cases oc1)
      case (Next cv)
      obtain c v' where cv: "cv = (c, v')" by (cases cv) auto
      show ?thesis
      proof (cases c)
        case Continue
        obtain oc2 tr2 out2 where l: "for_loop xs v' body w (h @ tr1) = (oc2, tr2, out2)"
          by (cases "for_loop xs v' body w (h @ tr1)") auto
        from Cons.IH [OF l] p1 Cons.prems b Next cv Continue l show ?thesis by auto
      next
        case Break
        with Cons.prems b Next cv p1 show ?thesis by simp
      qed
    next
      case (Returned r)
      with Cons.prems b p1 show ?thesis by simp
    next
      case (Raised e)
      with Cons.prems b p1 show ?thesis by simp
    qed
  qed
qed

lemma emits_with_playwright [emits_intros]:
  assumes "P StartPlaywright" and "P StopPlaywright" and "emits P body"
  shows "emits P (with_playwright body)"
proof -
  have "emits P (\<lambda>w h. (Next (), [StopPlaywright], []))"
    using assms(2) by (simp add: emits_def)
  with assms show ?thesis
    unfolding with_playwright_def by (intro emits_seq emits_call emits_try_finally)
qed

lemma emits_unless_found [emits_intros]: "P (Count x) \<Longrightarrow> emits P (unless_found x alt)"
  unfolding unless_found_def by (intro emits_bind emits_count emits_pure)

lemma emits_either_found [emits_intros]:
  "P (Count a) \<Longrightarrow> P (Count b) \<Longrightarrow> emits P (either_found a b)"
  unfolding either_found_def by (intro emits_bind emits_count emits_pure emits_if)

lemma emits_item [emits_intros]: "emits P (item xs i)"
  by (simp add: item_def emits_pure emits_raise)

lemma emits_print_result:
  "emits P f \<Longrightarrow> list_all P (fst (snd (print_result f w out)))"
proof -
  assume e: "emits P f"
  obtain oc tr out' where f: "f w [] = (oc, tr, out')" by (cases "f w []") auto
  from emitsD [OF e f] f show ?thesis by (cases oc) (simp_all add: print_result_def)
qed

lemma set_endpoints: "list_all (connects_to url) tr \<Longrightarrow> set (endpoints tr) \<subseteq> {url}"
  by (induction tr rule: endpoints.induct) (simp_all add: connects_to_def)

section \<open>The endpoint\<close>

lemma post_tweet_emits:
  assumes "P StartPlaywright" "P StopPlaywright" "P (ConnectOverCdp twitter_CDP_URL)" "P NewPage"
    "P ClosePage" "\<And>url u t. P (Goto url u t)" "\<And>ms. P (WaitForTimeout ms)" "\<And>l. P (Count l)"
    "\<And>l f. P (Click l f)" "\<And>l. P (Fill l content)" "\<And>l n. P (GetAttribute l n)"
    "\<And>k. P (KeyboardPress k)" "\<And>p. P (Screenshot p)"
  shows "emits P (post_tweet content reply_to dry_run)"
  unfolding post_tweet_def post_tweet_try_def find_textbox_def try_button_def Let_def
  by (intro emits_intros assms)

lemma post_article_emits:
  assumes "P StartPlaywright" "P StopPlaywright" "P (ConnectOverCdp zhihu_CDP_URL)" "P NewPage"
    "\<And>url u t. P (Goto url u t)" "\<And>ms. P (WaitForTimeout ms)" "\<And>l. P (Count l)"
    "\<And>l f. P (Click l f)" "\<And>t d. P (KeyboardType t d)" "\<And>s t. P (WaitForSelector s t)"
    "\<And>l. P (InnerText l)" "\<And>l. P (IsDisabled l)" "\<And>l. P (ScrollIntoViewIfNeeded l)"
    "\<And>k. P (KeyboardPress k)" "\<And>p. P (Screenshot p)"
  shows "emits P (post_article title content dry_run)"
  unfolding post_article_def post_article_try_def await_confirmation_def try_title_selector_def
    type_chunk_def try_publish_button_def Let_def
  by (intro emits_intros assms)

text \<open>
  C7. Whatever the parsed arguments, the files, standard input and the browser are, every
  \<open>connect_over_cdp\<close> call of a run of either script is given the URL
  \<open>http://127.0.0.1:18800\<close>.
\<close>

theorem fixed_cdp_endpoint:
  "set (endpoints (fst (snd (twitter_main targs env w)))) \<subseteq> {lit ''http://127.0.0.1:18800''}
   \<and> set (endpoints (fst (snd (zhihu_main zargs env w)))) \<subseteq> {lit ''http://127.0.0.1:18800''}"
proof
  let ?P = "connects_to (lit ''http://127.0.0.1:18800'')"
  have t: "emits ?P (post_tweet content reply_to dry_run)" for content reply_to dry_run
    by (rule post_tweet_emits) (simp_all add: connects_to_def twitter_CDP_URL_def)
  have z: "emits ?P (post_article title content dry_run)" for title content dry_run
    by (rule post_article_emits) (simp_all add: connects_to_def zhihu_CDP_URL_def)
  have "list_all ?P (fst (snd (twitter_main targs env w)))"
    by (auto simp: twitter_main_def emits_print_result [OF t] split: prod.splits sum.splits)
  then show "set (endpoints (fst (snd (twitter_main targs env w)))) \<subseteq> {lit ''http://127.0.0.1:18800''}"
    by (rule set_endpoints)
  have "list_all ?P (fst (snd (zhihu_main zargs env w)))"
    by (auto simp: zhihu_main_def Let_def emits_print_result [OF z] split: prod.splits sum.splits)
  then show "set (endpoints (fst (snd (zhihu_main zargs env w)))) \<subseteq> {lit ''http://127.0.0.1:18800''}"
    by (rule set_endpoints)
qed

section \<open>Failures that escape\<close>

lemmas tweet_defs = post_tweet_def post_tweet_try_def find_textbox_def try_button_def
  selectors_def Let_def

lemmas article_defs = post_article_def post_article_try_def await_confirmation_def
  try_title_selector_def type_chunk_def try_publish_button_def title_selectors_def
  chunk_size_def slice_def Let_def

text \<open>
  C1. The claim says that \<open>post_tweet\<close> and \<open>post_article\<close> never raise. In a browser that is
  connected and has a context but refuses to open a new page, both do: \<open>context.new_page()\<close>
  stands between the two \<open>try\<close> statements, so its exception leaves the function, after
  Playwright has been stopped, and no status string is returned.
\<close>

theorem new_page_failure_escapes:
  "post_tweet (lit ''hello'') None False page_refused []
   = (Raised (lit ''Target closed''),
      [StartPlaywright, ConnectOverCdp twitter_CDP_URL, NewPage, StopPlaywright],
      [check_mark @ lit '' Connected to Clawdbot browser''])
   \<and> post_article (lit ''T'') (lit ''hello'') False page_refused []
   = (Raised (lit ''Target closed''),
      [StartPlaywright, ConnectOverCdp zhihu_CDP_URL, NewPage, StopPlaywright],
      [check_mark @ lit '' Connected to Clawdbot browser''])"
  by (simp add: post_tweet_def post_article_def run statement_defs page_refused_def agreeable_def
        del: block.simps)

section \<open>What a statement writes, and in which order\<close>

lemma typed_texts_by: "typed_texts tr = concat (map typed_by tr)"
  by (induction tr rule: typed_texts.induct) (simp_all add: typed_by_def)

lemma filled_texts_by: "filled_texts tr = concat (map filled_by tr)"
  by (induction tr rule: filled_texts.induct) (simp_all add: filled_by_def)

lemma writesI:
  assumes "\<And>w h oc tr out. m w h = (oc, tr, out) \<Longrightarrow> \<exists>k. concat (map f tr) = take k L"
    and "\<And>w h x tr out. m w h = (Next x, tr, out) \<Longrightarrow> concat (map f tr) = L"
  shows "writes f L m"
  unfolding writes_def using assms by (auto split: prod.splits)

lemma writes_prefix: "writes f L m \<Longrightarrow> m w h = (oc, tr, out) \<Longrightarrow> \<exists>k. concat (map f tr) = take k L"
  unfolding writes_def by (drule spec [of _ w], drule spec [of _ h]) simp

lemma writes_Next: "writes f L m \<Longrightarrow> m w h = (Next x, tr, out) \<Longrightarrow> concat (map f tr) = L"
  unfolding writes_def by (drule spec [of _ w], drule spec [of _ h]) simp

lemma quiet_concat: "list_all (\<lambda>a. f a = []) tr \<Longrightarrow> concat (map f tr) = []"
  by (induction tr) simp_all

lemma writes_quiet: "emits (\<lambda>a. f a = []) m \<Longrightarrow> writes f [] m"
  by (rule writesI) (auto dest!: emitsD quiet_concat)

lemma writes_call: "writes f (f a) (call a)"
  by (rule writesI) (auto simp: run split: sum.splits intro: exI [of _ "length (f a)"])

lemma writes_keyboard_type: "writes f (f (KeyboardType t d)) (keyboard_type t d)"
  unfolding keyboard_type_def by (rule writes_call)

lemma take_prefix_append: "\<exists>j. take k xs = take j (xs @ ys)"
  by (rule exI [of _ "min k (length xs)"]) (simp add: min_def)

lemma append_take_prefix: "\<exists>j. xs @ take k ys = take j (xs @ ys)"
  by (rule exI [of _ "length xs + k"]) simp

lemma writes_bind:
  assumes "writes f L1 m" and "\<And>x. writes f L2 (g x)"
  shows "writes f (L1 @ L2) (bind m g)"
proof (rule writesI)
  fix w h oc tr out
  assume r: "bind m g w h = (oc, tr, out)"
  obtain oc1 tr1 out1 where m: "m w h = (oc1, tr1, out1)" by (cases "m w h") auto
  show "\<exists>k. concat (map f tr) = take k (L1 @ L2)"
  proof (cases oc1)
    case (Next x)
    obtain oc2 tr2 out2 where g: "g x w (h @ tr1) = (oc2, tr2, out2)"
      by (cases "g x w (h @ tr1)") auto
    from writes_Next [OF assms(1)] m Next have 1: "concat (map f tr1) = L1" by simp
    from writes_prefix [OF assms(2) g] obtain k where "concat (map f tr2) = take k L2" ..
    moreover from r m Next g have "tr = tr1 @ tr2" by (simp add: run)
    ultimately show ?thesis using 1 append_take_prefix [of L1 k L2] by simp
  next
    case (Returned v)
    with r m have "tr = tr1" by (simp add: run)
    with writes_prefix [OF assms(1) m] take_prefix_append [of _ L1 L2] show ?thesis by auto
  next
    case (Raised e)
    with r m have "tr = tr1" by (simp add: run)
    with writes_prefix [OF assms(1) m] take_prefix_append [of _ L1 L2] show ?thesis by auto
  qed
next
  fix w h y tr out
  assume r: "bind m g w h = (Next y, tr, out)"
  obtain oc1 tr1 out1 where m: "m w h = (oc1, tr1, out1)" by (cases "m w h") auto
  with r obtain x where x: "oc1 = Next x" by (cases oc1) (auto simp: run)
  obtain oc2 tr2 out2 where g: "g x w (h @ tr1) = (oc2, tr2, out2)"
    by (cases "g x w (h @ tr1)") auto
  from r m x g have e: "oc2 = Next y" "tr = tr1 @ tr2" by (auto simp: run)
  from writes_Next [OF assms(1)] m x have "concat (map f tr1) = L1" by simp
  moreover from writes_Next [OF assms(2)] g e have "concat (map f tr2) = L2" by simp
  ultimately show "concat (map f tr) = L1 @ L2" using e by simp
qed

lemma writes_seq: "writes f L1 m \<Longrightarrow> writes f L2 k \<Longrightarrow> writes f (L1 @ L2) (seq m k)"
  by (simp add: seq_def writes_bind)

lemma writes_block_Nil: "writes f [] (block [])"
  by (rule writesI) (simp_all add: run)

lemma writes_block_Cons:
  "writes f L1 m \<Longrightarrow> writes f L2 (block ms) \<Longrightarrow> writes f (L1 @ L2) (block (m # ms))"
  by (simp add: writes_seq)

lemma writes_type_loop:
  "writes typed_by (map (\<lambda>i. slice content i (i + chunk_size)) xs)
     (for_loop xs () (type_chunk content))"
proof (rule writesI)
  fix w h oc tr out
  assume "for_loop xs () (type_chunk content) w h = (oc, tr, out)"
  from type_loop [OF this] show "\<exists>k. concat (map typed_by tr)
      = take k (map (\<lambda>i. slice content i (i + chunk_size)) xs)"
    by (auto simp: typed_texts_by take_map)
next
  fix w h x tr out
  assume "for_loop xs () (type_chunk content) w h = (Next x, tr, out)"
  from type_loop [OF this] show "concat (map typed_by tr)
      = map (\<lambda>i. slice content i (i + chunk_size)) xs"
    by (auto simp: typed_texts_by)
qed

lemma stagedI:
  assumes "\<And>w h oc tr out. m w h = (oc, tr, out) \<Longrightarrow> \<exists>k. concat (map f tr) = take k L"
    and "\<And>w h oc tr out a. m w h = (oc, tr, out) \<Longrightarrow> a \<in> set tr \<Longrightarrow> M a \<Longrightarrow> concat (map f tr) = L"
  shows "staged f M L m"
  unfolding staged_def using assms by (auto split: prod.splits)

lemma staged_prefix: "staged f M L m \<Longrightarrow> m w h = (oc, tr, out) \<Longrightarrow> \<exists>k. concat (map f tr) = take k L"
  unfolding staged_def by (drule spec [of _ w], drule spec [of _ h]) simp

lemma staged_whole:
  "staged f M L m \<Longrightarrow> m w h = (oc, tr, out) \<Longrightarrow> a \<in> set tr \<Longrightarrow> M a \<Longrightarrow> concat (map f tr) = L"
  unfolding staged_def by (drule spec [of _ w], drule spec [of _ h]) auto

lemma staged_quiet: "emits (\<lambda>a. f a = []) m \<Longrightarrow> staged f M [] m"
  by (rule stagedI) (auto dest!: emitsD quiet_concat)


lemma stagedI2:
  assumes "\<And>w h oc tr out. m w h = (oc, tr, out) \<Longrightarrow>
    (\<exists>k. concat (map f tr) = take k L) \<and> ((\<exists>a \<in> set tr. M a) \<longrightarrow> concat (map f tr) = L)"
  shows "staged f M L m"
  unfolding staged_def
proof (intro allI)
  fix w h
  obtain oc tr out where m: "m w h = (oc, tr, out)" by (cases "m w h") auto
  from assms [OF m] m show "case m w h of (oc, tr, out) \<Rightarrow>
      (\<exists>k. concat (map f tr) = take k L) \<and> ((\<exists>a \<in> set tr. M a) \<longrightarrow> concat (map f tr) = L)"
    by simp
qed

lemma quiet_unmarked: "list_all (\<lambda>a. \<not> M a) tr \<Longrightarrow> a \<in> set tr \<Longrightarrow> M a \<Longrightarrow> False"
  by (auto simp: list_all_iff)

lemma staged_bind:
  assumes "writes f L1 m" and "emits (\<lambda>a. \<not> M a) m" and "\<And>x. staged f M L2 (g x)"
  shows "staged f M (L1 @ L2) (bind m g)"
proof -
  have *: "(\<exists>k. concat (map f tr) = take k (L1 @ L2))
      \<and> ((\<exists>a \<in> set tr. M a) \<longrightarrow> concat (map f tr) = L1 @ L2)"
    if r: "bind m g w h = (oc, tr, out)" for w h oc tr out
  proof -
    obtain oc1 tr1 out1 where m: "m w h = (oc1, tr1, out1)" by (cases "m w h") auto
    from emitsD [OF assms(2) m] have u: "list_all (\<lambda>a. \<not> M a) tr1" .
    show ?thesis
    proof (cases oc1)
      case (Next x)
      obtain oc2 tr2 out2 where g: "g x w (h @ tr1) = (oc2, tr2, out2)"
        by (cases "g x w (h @ tr1)") auto
      from writes_Next [OF assms(1)] m Next have 1: "concat (map f tr1) = L1" by simp
      from r m Next g have t: "tr = tr1 @ tr2" by (simp add: run)
      from staged_prefix [OF assms(3) g] obtain k where "concat (map f tr2) = take k L2" ..
      with 1 t append_take_prefix [of L1 k L2]
      have a: "\<exists>k. concat (map f tr) = take k (L1 @ L2)" by simp
      have "concat (map f tr) = L1 @ L2" if "a \<in> set tr" "M a" for a
      proof -
        from that t u have "a \<in> set tr2" by (auto dest: quiet_unmarked)
        from staged_whole [OF assms(3) g this that(2)] 1 t show ?thesis by simp
      qed
      with a show ?thesis by blast
    next
      case (Returned v)
      with r m have "tr = tr1" by (simp add: run)
      with writes_prefix [OF assms(1) m] take_prefix_append [of _ L1 L2] u show ?thesis
        by (auto dest: quiet_unmarked)
    next
      case (Raised e)
      with r m have "tr = tr1" by (simp add: run)
      with writes_prefix [OF assms(1) m] take_prefix_append [of _ L1 L2] u show ?thesis
        by (auto dest: quiet_unmarked)
    qed
  qed
  show ?thesis by (rule stagedI2) (rule *)
qed

lemma staged_seq:
  "writes f L1 m \<Longrightarrow> emits (\<lambda>a. \<not> M a) m \<Longrightarrow> staged f M L2 k \<Longrightarrow> staged f M (L1 @ L2) (seq m k)"
  by (simp add: seq_def staged_bind)

lemma staged_block_Cons:
  "writes f L1 m \<Longrightarrow> emits (\<lambda>a. \<not> M a) m \<Longrightarrow> staged f M L2 (block ms)
   \<Longrightarrow> staged f M (L1 @ L2) (block (m # ms))"
  by (simp add: staged_seq)

text \<open>Statements that neither write nor mark leave a staged statement staged.\<close>

lemma silent_c: "list_all (\<lambda>a. f a = [] \<and> \<not> M a) s \<Longrightarrow> concat (map f s) = []"
  by (induction s) simp_all

lemma silent_n: "list_all (\<lambda>a. f a = [] \<and> \<not> M a) s \<Longrightarrow> a \<in> set s \<Longrightarrow> \<not> M a"
  by (induction s) auto

lemma silent_glue:
  assumes "list_all (\<lambda>a. f a = [] \<and> \<not> M a) s"
    and "(\<exists>k. concat (map f t) = take k L) \<and> ((\<exists>a \<in> set t. M a) \<longrightarrow> concat (map f t) = L)"
  shows "(\<exists>k. concat (map f (t @ s)) = take k L)
       \<and> ((\<exists>a \<in> set (t @ s). M a) \<longrightarrow> concat (map f (t @ s)) = L)"
    and "(\<exists>k. concat (map f (s @ t)) = take k L)
       \<and> ((\<exists>a \<in> set (s @ t). M a) \<longrightarrow> concat (map f (s @ t)) = L)"
proof -
  note c = silent_c [OF assms(1)] and n = silent_n [OF assms(1)]
  have 1: "concat (map f (t @ s)) = concat (map f t)" "concat (map f (s @ t)) = concat (map f t)"
    by (simp_all add: c)
  have 2: "(\<exists>a \<in> set (t @ s). M a) = (\<exists>a \<in> set t. M a)"
    "(\<exists>a \<in> set (s @ t). M a) = (\<exists>a \<in> set t. M a)"
    using n by auto
  show "(\<exists>k. concat (map f (t @ s)) = take k L)
       \<and> ((\<exists>a \<in> set (t @ s). M a) \<longrightarrow> concat (map f (t @ s)) = L)"
    using assms(2) unfolding 1 2 by blast
  show "(\<exists>k. concat (map f (s @ t)) = take k L)
       \<and> ((\<exists>a \<in> set (s @ t). M a) \<longrightarrow> concat (map f (s @ t)) = L)"
    using assms(2) unfolding 1 2 by blast
qed

lemma stagedD:
  "staged f M L m \<Longrightarrow> m w h = (oc, tr, out) \<Longrightarrow>
   (\<exists>k. concat (map f tr) = take k L) \<and> ((\<exists>a \<in> set tr. M a) \<longrightarrow> concat (map f tr) = L)"
  unfolding staged_def by (drule spec [of _ w], drule spec [of _ h]) simp

lemma staged_nothing: "(\<exists>k. concat (map f []) = take k L) \<and> ((\<exists>a \<in> set []. M a) \<longrightarrow> concat (map f []) = L)"
  by (rule conjI, rule exI [of _ 0]) simp_all

lemma staged_try_except:
  assumes "staged f M L m" and "\<And>e. emits (\<lambda>a. f a = [] \<and> \<not> M a) (handler e)"
  shows "staged f M L (try_except m handler)"
proof -
  have *: "(\<exists>k. concat (map f tr) = take k L) \<and> ((\<exists>a \<in> set tr. M a) \<longrightarrow> concat (map f tr) = L)"
    if r: "try_except m handler w h = (oc, tr, out)" for w h oc tr out
  proof -
    obtain oc1 tr1 out1 where m: "m w h = (oc1, tr1, out1)" by (cases "m w h") auto
    note p = stagedD [OF assms(1) m]
    show ?thesis
    proof (cases oc1)
      case (Raised e)
      obtain oc2 tr2 out2 where g: "handler e w (h @ tr1) = (oc2, tr2, out2)"
        by (cases "handler e w (h @ tr1)") auto
      from emitsD [OF assms(2) g] have s: "list_all (\<lambda>a. f a = [] \<and> \<not> M a) tr2" .
      from r m Raised g have t: "tr = tr1 @ tr2" by (simp add: run)
      from silent_glue(1) [OF s p] show ?thesis unfolding t .
    next
      case (Next x)
      with r m have "tr = tr1" by (simp add: run)
      with p show ?thesis by simp
    next
      case (Returned v)
      with r m have "tr = tr1" by (simp add: run)
      with p show ?thesis by simp
    qed
  qed
  show ?thesis by (rule stagedI2) (rule *)
qed

lemma staged_try_finally:
  assumes "staged f M L m" and "emits (\<lambda>a. f a = [] \<and> \<not> M a) fin"
  shows "staged f M L (try_finally m fin)"
proof -
  have *: "(\<exists>k. concat (map f tr) = take k L) \<and> ((\<exists>a \<in> set tr. M a) \<longrightarrow> concat (map f tr) = L)"
    if r: "try_finally m fin w h = (oc, tr, out)" for w h oc tr out
  proof -
    obtain oc1 tr1 out1 where m: "m w h = (oc1, tr1, out1)" by (cases "m w h") auto
    note p = stagedD [OF assms(1) m]
    obtain oc2 tr2 out2 where g: "fin w (h @ tr1) = (oc2, tr2, out2)"
      by (cases "fin w (h @ tr1)") auto
    from emitsD [OF assms(2) g] have s: "list_all (\<lambda>a. f a = [] \<and> \<not> M a) tr2" .
    from r m g have t: "tr = tr1 @ tr2" by (cases oc2) (simp_all add: run)
    from silent_glue(1) [OF s p] show ?thesis unfolding t .
  qed
  show ?thesis by (rule stagedI2) (rule *)
qed

lemma staged_after:
  assumes "emits (\<lambda>a. f a = [] \<and> \<not> M a) m" and "\<And>x. staged f M L (g x)"
  shows "staged f M L (bind m g)"
proof -
  have *: "(\<exists>k. concat (map f tr) = take k L) \<and> ((\<exists>a \<in> set tr. M a) \<longrightarrow> concat (map f tr) = L)"
    if r: "bind m g w h = (oc, tr, out)" for w h oc tr out
  proof -
    obtain oc1 tr1 out1 where m: "m w h = (oc1, tr1, out1)" by (cases "m w h") auto
    from emitsD [OF assms(1) m] have s: "list_all (\<lambda>a. f a = [] \<and> \<not> M a) tr1" .
    show ?thesis
    proof (cases oc1)
      case (Next x)
      obtain oc2 tr2 out2 where g: "g x w (h @ tr1) = (oc2, tr2, out2)"
        by (cases "g x w (h @ tr1)") auto
      note p = stagedD [OF assms(2) g]
      from r m Next g have t: "tr = tr1 @ tr2" by (simp add: run)
      from silent_glue(2) [OF s p] show ?thesis unfolding t .
    next
      case (Returned v)
      with r m have "tr = tr1" by (simp add: run)
      with silent_glue(2) [OF s staged_nothing [of f L M]] show ?thesis by simp
    next
      case (Raised e)
      with r m have "tr = tr1" by (simp add: run)
      with silent_glue(2) [OF s staged_nothing [of f L M]] show ?thesis by simp
    qed
  qed
  show ?thesis by (rule stagedI2) (rule *)
qed

lemma staged_before:
  assumes "staged f M L m" and "\<And>x. emits (\<lambda>a. f a = [] \<and> \<not> M a) (g x)"
  shows "staged f M L (bind m g)"
proof -
  have *: "(\<exists>k. concat (map f tr) = take k L) \<and> ((\<exists>a \<in> set tr. M a) \<longrightarrow> concat (map f tr) = L)"
    if r: "bind m g w h = (oc, tr, out)" for w h oc tr out
  proof -
    obtain oc1 tr1 out1 where m: "m w h = (oc1, tr1, out1)" by (cases "m w h") auto
    note p = stagedD [OF assms(1) m]
    show ?thesis
    proof (cases oc1)
      case (Next x)
      obtain oc2 tr2 out2 where g: "g x w (h @ tr1) = (oc2, tr2, out2)"
        by (cases "g x w (h @ tr1)") auto
      from emitsD [OF assms(2) g] have s: "list_all (\<lambda>a. f a = [] \<and> \<not> M a) tr2" .
      from r m Next g have t: "tr = tr1 @ tr2" by (simp add: run)
      from silent_glue(1) [OF s p] show ?thesis unfolding t .
    next
      case (Returned v)
      with r m have "tr = tr1" by (simp add: run)
      with p show ?thesis by simp
    next
      case (Raised e)
      with r m have "tr = tr1" by (simp add: run)
      with p show ?thesis by simp
    qed
  qed
  show ?thesis by (rule stagedI2) (rule *)
qed

lemma staged_with_playwright:
  assumes "staged f M L body" and "f StartPlaywright = [] \<and> \<not> M StartPlaywright"
    and "f StopPlaywright = [] \<and> \<not> M StopPlaywright"
  shows "staged f M L (with_playwright body)"
proof -
  have "emits (\<lambda>a. f a = [] \<and> \<not> M a) (\<lambda>w h. (Next (), [StopPlaywright], []))"
    using assms(3) by (simp add: emits_def)
  from staged_try_finally [OF assms(1) this] assms(2) show ?thesis
    unfolding with_playwright_def seq_def by (intro staged_after emits_call)
qed

lemma bind_pure: "bind (pure x) f = f x"
  by (rule ext, rule ext) (simp add: run split: prod.splits)

lemma bind_print_pure: "bind (seq (print s) (pure x)) f = seq (print s) (f x)"
  by (rule ext, rule ext) (simp add: run split: prod.splits outcome.splits)

lemma staged_eq: "staged f M L' m \<Longrightarrow> L' = L \<Longrightarrow> staged f M L m"
  by simp

lemma emits_type_chunk:
  "P (KeyboardType (slice content i (i + chunk_size)) 3) \<Longrightarrow> P (WaitForTimeout 50)
   \<Longrightarrow> emits P (type_chunk content i u)"
  unfolding type_chunk_def Let_def by (intro emits_intros)

lemma staged_block_silent:
  "emits (\<lambda>a. f a = [] \<and> \<not> M a) m \<Longrightarrow> staged f M L (block ms) \<Longrightarrow> staged f M L (block (m # ms))"
  by (simp add: seq_def staged_after)

lemma staged_block_single: "staged f M L m \<Longrightarrow> staged f M L (block [m])"
  by (simp add: seq_def staged_before emits_pure)

lemma staged_seq_print: "staged f M L m \<Longrightarrow> staged f M L (seq (print s) m)"
  by (simp add: seq_def staged_after emits_print)

lemma post_article_try_staged:
  "staged typed_by (\<lambda>a. a = WaitForTimeout 2000)
     (title # map (\<lambda>i. slice content i (i + chunk_size)) (range3 0 (length content) chunk_size))
     (post_article_try title content)"
  unfolding post_article_try_def await_confirmation_def try_title_selector_def
    try_publish_button_def Let_def
  apply (rule staged_eq)
   apply ((rule staged_quiet, (intro emits_intros emits_type_chunk; simp add: typed_by_def; fail))
      | (rule staged_block_Cons,
          ((rule writes_quiet, (intro emits_intros emits_type_chunk; simp add: typed_by_def; fail))
           | rule writes_keyboard_type writes_type_loop),
          (intro emits_intros emits_type_chunk; simp)))+
  apply (simp add: typed_by_def)
  done

text \<open>What surrounds the \<open>try\<close> statement of \<open>post_article\<close> neither writes nor marks.\<close>

lemma post_article_staged:
  assumes "\<And>title. staged f M (L title) (post_article_try title content)"
    and "\<And>a. a \<in> {StartPlaywright, StopPlaywright, NewPage} \<or> (\<exists>url. a = ConnectOverCdp url)
           \<or> (\<exists>path. a = Screenshot path) \<Longrightarrow> f a = [] \<and> \<not> M a"
  shows "staged f M (L (take 100 title)) (post_article title content dry_run)"
proof -
  have body: "staged f M (L t) (block [
      if_then dry_run (block [p1, p2, p3, p4, p5, return v]),
      with_playwright (block [
        try_except (block [call (ConnectOverCdp zhihu_CDP_URL), p6]) (\<lambda>e. return (v1 e)),
        bind contexts (\<lambda>n. if_then (n = 0) (return v2)),
        call NewPage,
        try_except (post_article_try t content)
          (\<lambda>e. block [screenshot s, return (v3 e)])])])"
    if "\<And>P. emits P p1" "\<And>P. emits P p2" "\<And>P. emits P p3" "\<And>P. emits P p4" "\<And>P. emits P p5"
      "\<And>P. emits P p6"
    for p1 p2 p3 p4 p5 p6 v v1 v2 v3 s t
    by (rule staged_block_single staged_with_playwright staged_try_except assms(1)
        | (rule staged_block_silent, (intro emits_intros that; simp add: assms(2); fail))
        | (intro emits_intros; simp add: assms(2); fail)
        | simp add: assms(2))+
  show ?thesis
  proof (cases "100 < length title")
    case True
    have s: "slice title 0 100 = take 100 title" by (simp add: slice_def)
    show ?thesis
      unfolding post_article_def
      by (simp only: True if_True bind_print_pure s) (intro staged_seq_print body emits_print)
  next
    case False
    then have t: "take 100 title = title" by simp
    from False show ?thesis
      unfolding post_article_def
      by (simp only: if_False bind_pure t) (intro body [where t = title] emits_print)
  qed
qed


lemma writes_fill: "writes filled_by [text] (call (Fill l text))"
  using writes_call [of filled_by "Fill l text"] by (simp add: filled_by_def)

lemma post_tweet_try_staged:
  "staged filled_by (\<lambda>a. a = KeyboardPress (lit ''Control+Enter'')) [content]
     (post_tweet_try content reply_to)"
  unfolding post_tweet_try_def find_textbox_def try_button_def Let_def
  apply (rule staged_eq)
   apply ((rule staged_quiet, (intro emits_intros; simp add: filled_by_def; fail))
      | (rule staged_after, (intro emits_intros; simp add: filled_by_def; fail))
      | (rule staged_block_Cons,
          ((rule writes_quiet, (intro emits_intros; simp add: filled_by_def; fail))
           | rule writes_fill),
          (intro emits_intros; simp)))+
  apply simp
  done

lemma post_tweet_staged:
  assumes "staged f M L (post_tweet_try content reply_to)"
    and "\<And>a. a \<in> {StartPlaywright, StopPlaywright, NewPage, ClosePage}
           \<or> (\<exists>url. a = ConnectOverCdp url) \<or> (\<exists>path. a = Screenshot path)
         \<Longrightarrow> f a = [] \<and> \<not> M a"
  shows "staged f M L (post_tweet content reply_to dry_run)"
  unfolding post_tweet_def
  by (rule staged_block_single staged_with_playwright staged_try_except staged_try_finally assms(1)
      | (rule staged_block_silent, (intro emits_intros; simp add: assms(2); fail))
      | (intro emits_intros; simp add: assms(2); fail)
      | simp add: assms(2))+

lemma post_tweet_fills_in_order:
  assumes "post_tweet content reply_to dry_run w h = (oc, tr, out)"
  shows "(\<exists>k. filled_texts tr = take k [content])
       \<and> (KeyboardPress (lit ''Control+Enter'') \<in> set tr \<longrightarrow> filled_texts tr = [content])"
proof -
  have "staged filled_by (\<lambda>a. a = KeyboardPress (lit ''Control+Enter'')) [content]
          (post_tweet content reply_to dry_run)"
    by (rule post_tweet_staged [OF post_tweet_try_staged]) (auto simp: filled_by_def)
  from stagedD [OF this assms] show ?thesis by (simp add: filled_texts_by)
qed

lemma post_article_types_in_order:
  assumes "post_article title content dry_run w h = (oc, tr, out)"
  shows "(\<exists>k. typed_texts tr = take k (take 100 title
            # map (\<lambda>i. slice content i (i + 50)) (range3 0 (length content) 50)))
       \<and> (WaitForTimeout 2000 \<in> set tr \<longrightarrow> typed_texts tr = take 100 title
            # map (\<lambda>i. slice content i (i + 50)) (range3 0 (length content) 50))"
proof -
  have "staged typed_by (\<lambda>a. a = WaitForTimeout 2000)
          (take 100 title # map (\<lambda>i. slice content i (i + chunk_size))
             (range3 0 (length content) chunk_size))
          (post_article title content dry_run)"
    by (rule post_article_staged [where L = "\<lambda>t. t # map (\<lambda>i. slice content i (i + chunk_size))
             (range3 0 (length content) chunk_size)", OF post_article_try_staged])
       (auto simp: typed_by_def)
  from stagedD [OF this assms] show ?thesis by (simp add: typed_texts_by chunk_size_def)
qed

section \<open>The payload that is injected\<close>

lemma agreeable_url:
  "contains (lit ''signin'') (lit ''https://zhuanlan.zhihu.com/p/123/edit'') = False"
  "contains (lit ''/p/'') (lit ''https://zhuanlan.zhihu.com/p/123/edit'') = True"
  "split (lit ''https://zhuanlan.zhihu.com/p/123/edit'') (lit ''/p/'')
   = [lit ''https://zhuanlan.zhihu.com'', lit ''123/edit'']"
  "split (lit ''123/edit'') (lit ''/'') = [lit ''123'', lit ''edit'']"
  "strip fabu = fabu"
  by (simp_all add: string_defs fabu_def)


lemma seq_print_out: "\<exists>rest. snd (snd (seq (print s) k w h)) = [s] @ rest"
  by (cases "k w h") (simp add: run)

lemma seq_if_print_out:
  "\<exists>rest. snd (snd (seq (if_then c (print s)) k w h)) = (if c then [s] else []) @ rest"
  by (cases "k w h") (simp add: run)

lemma post_tweet_warns:
  "\<exists>rest. snd (snd (post_tweet content reply_to dry_run w h))
     = (if 280 < length content
        then [warning_sign @ lit ''  Warning: Tweet is '' @ str_of_nat (length content)
                @ lit '' chars (280 limit for free accounts)'']
        else []) @ rest"
  unfolding post_tweet_def block.simps(2) by (rule seq_if_print_out)

lemma post_article_warns:
  "\<exists>rest. snd (snd (post_article title content dry_run w h))
     = (if 100 < length title
        then [warning_sign @ lit ''  Warning: Title is '' @ str_of_nat (length title)
                @ lit '' chars (100 limit)'']
        else []) @ rest"
proof (cases "100 < length title")
  case True
  show ?thesis
    unfolding post_article_def
    by (simp only: True if_True bind_print_pure) (rule seq_print_out)
next
  case False
  then show ?thesis by simp
qed

lemma post_tweet_types_nothing:
  assumes "post_tweet content reply_to dry_run w h = (oc, tr, out)"
  shows "typed_texts tr = []"
proof -
  have "emits (\<lambda>a. typed_by a = []) (post_tweet content reply_to dry_run)"
    by (rule post_tweet_emits) (simp_all add: typed_by_def)
  from quiet_concat [OF emitsD [OF this assms]] show ?thesis by (simp add: typed_texts_by)
qed

lemma post_article_fills_nothing:
  assumes "post_article title content dry_run w h = (oc, tr, out)"
  shows "filled_texts tr = []"
proof -
  have "emits (\<lambda>a. filled_by a = []) (post_article title content dry_run)"
    by (rule post_article_emits) (simp_all add: filled_by_def)
  from quiet_concat [OF emitsD [OF this assms]] show ?thesis by (simp add: filled_texts_by)
qed


lemma agreeable_long_tweet:
  \<open>post_tweet (replicate 281 97) None False agreeable []
   = (Returned (check_mark @ lit '' '' @ lit ''Tweet'' @ lit '' posted!''),
      [StartPlaywright, ConnectOverCdp twitter_CDP_URL, NewPage,
       Goto (lit ''https://twitter.com/compose/tweet'') (lit ''domcontentloaded'') 60000,
       WaitForTimeout 3000, Count tweet_textarea, Count tweet_textarea,
       Click tweet_textarea False, WaitForTimeout 300,
       Fill tweet_textarea (replicate 281 97), WaitForTimeout 500,
       KeyboardPress (lit ''Control+Enter''), WaitForTimeout 3000,
       Count (Locator (lit ''text="Your post was sent."'')),
       ClosePage, StopPlaywright],
      [warning_sign @ lit ''  Warning: Tweet is '' @ str_of_nat 281
         @ lit '' chars (280 limit for free accounts)'',
       check_mark @ lit '' Connected to Clawdbot browser'',
       memo @ lit '' Opening compose dialog...'',
       writing_hand @ lit ''  Typing content...'',
       outbox_tray @ lit '' Posting via Ctrl+Enter...'',
       hourglass @ lit '' Waiting for confirmation...'',
       check_mark @ lit '' '' @ lit ''Tweet'' @ lit '' posted successfully!''])\<close>
  by (simp add: tweet_defs action_word_def run statement_defs agreeable_def del: block.simps)

lemma agreeable_long_tweet_pressed:
  "\<exists>oc tr out.
     post_tweet (replicate 281 97) None False agreeable [] = (oc, tr, out)
     \<and> KeyboardPress (lit ''Control+Enter'') \<in> set tr
     \<and> hd out = warning_sign @ lit ''  Warning: Tweet is '' @ str_of_nat 281
          @ lit '' chars (280 limit for free accounts)''"
  unfolding agreeable_long_tweet by simp

lemma agreeable_long_article:
  "\<exists>oc tr out.
     post_article (replicate 101 97) (replicate 60 98) False agreeable [] = (oc, tr, out)
     \<and> WaitForTimeout 2000 \<in> set tr
     \<and> typed_texts tr = [replicate 100 97, replicate 50 98, replicate 10 98]"
  by (simp add: article_defs range3.simps run statement_defs agreeable_def agreeable_url
        del: block.simps)


section \<open>The chunks of the article body\<close>

lemma agreeable_chunked_article:
  "\<exists>oc tr out.
     post_article (lit ''T'') (replicate 120 98) False agreeable [] = (oc, tr, out)
     \<and> WaitForTimeout 2000 \<in> set tr
     \<and> typed_texts tr = [lit ''T'', replicate 50 98, replicate 50 98, replicate 20 98]"
  by (simp add: article_defs range3.simps run statement_defs agreeable_def agreeable_url
        del: block.simps)



section \<open>Screenshots on missing elements and uncertain outcomes\<close>

named_theorems shots_intros

lemma saved_append: "saved w h (xs @ ys) = saved w h xs @ saved w (h @ xs) ys"
  by (induction w h xs rule: saved.induct) simp_all

lemma saved_set: "p \<in> set (saved w h tr) \<Longrightarrow> Screenshot p \<in> set tr"
  by (induction w h tr rule: saved.induct) (auto split: if_splits)

lemma shotsI:
  assumes "\<And>w h x tr out. m w h = (Next x, tr, out) \<Longrightarrow> S' \<subseteq> S \<union> set (saved w h tr)"
    and "\<And>w h msg tr out. m w h = (Returned msg, tr, out) \<Longrightarrow> Q msg
           \<Longrightarrow> \<exists>p \<in> S \<union> set (saved w h tr). contains p msg"
  shows "shots Q S m S'"
  unfolding shots_def
proof (intro allI)
  fix w h
  obtain oc tr out where m: "m w h = (oc, tr, out)" by (cases "m w h") auto
  show "case m w h of
      (Next x, tr, out) \<Rightarrow> S' \<subseteq> S \<union> set (saved w h tr)
    | (Returned msg, tr, out) \<Rightarrow> \<not> Q msg \<or> (\<exists>p \<in> S \<union> set (saved w h tr). contains p msg)
    | (Raised e, tr, out) \<Rightarrow> True"
    using assms(1) [of w h _ tr out] assms(2) [of w h _ tr out] m by (cases oc) auto
qed

lemma shots_Next: "shots Q S m S' \<Longrightarrow> m w h = (Next x, tr, out) \<Longrightarrow> S' \<subseteq> S \<union> set (saved w h tr)"
  unfolding shots_def by (drule spec [of _ w], drule spec [of _ h]) simp

lemma shots_Returned:
  "shots Q S m S' \<Longrightarrow> m w h = (Returned msg, tr, out) \<Longrightarrow> Q msg
   \<Longrightarrow> \<exists>p \<in> S \<union> set (saved w h tr). contains p msg"
  unfolding shots_def by (drule spec [of _ w], drule spec [of _ h]) simp

lemma shots_pure [shots_intros]: "shots Q S (pure x) S"
  by (rule shotsI) (simp_all add: run)

lemma shots_print [shots_intros]: "shots Q S (print s) S"
  by (rule shotsI) (simp_all add: run)

lemma shots_raise [shots_intros]: "shots Q S (raise e) S"
  by (rule shotsI) (simp_all add: run)

lemma shots_contexts [shots_intros]: "shots Q S contexts S"
  by (rule shotsI) (simp_all add: run)

lemma shots_page_url [shots_intros]: "shots Q S page_url S"
  by (rule shotsI) (simp_all add: run)

lemma shots_return [shots_intros]:
  "\<not> Q v \<or> (\<exists>p \<in> S. contains p v) \<Longrightarrow> shots Q S (return v) S'"
  by (rule shotsI) (auto simp: run)

lemma shots_perform: "shots Q S (perform a reply) S"
  by (rule shotsI) (auto simp: run split: sum.splits)

lemma shots_screenshot [shots_intros]: "shots Q S (screenshot p) (insert p S)"
  by (rule shotsI) (auto simp: screenshot_def run split: sum.splits)

lemma shots_call [shots_intros]: "shots Q S (call a) S"
  by (simp add: call_def shots_perform)

lemma shots_count [shots_intros]: "shots Q S (count l) S"
  by (simp add: count_def shots_perform)

lemma shots_get_attribute [shots_intros]: "shots Q S (get_attribute l n) S"
  by (simp add: get_attribute_def shots_perform)

lemma shots_inner_text [shots_intros]: "shots Q S (inner_text l) S"
  by (simp add: inner_text_def shots_perform)

lemma shots_is_disabled [shots_intros]: "shots Q S (is_disabled l) S"
  by (simp add: is_disabled_def shots_perform)

lemma shots_goto [shots_intros]: "shots Q S (goto url u t) S"
  by (simp add: goto_def shots_call)

lemma shots_wait_for_timeout [shots_intros]: "shots Q S (wait_for_timeout ms) S"
  by (simp add: wait_for_timeout_def shots_call)

lemma shots_wait_for_selector [shots_intros]: "shots Q S (wait_for_selector s t) S"
  by (simp add: wait_for_selector_def shots_call)

lemma shots_keyboard_type [shots_intros]: "shots Q S (keyboard_type t d) S"
  by (simp add: keyboard_type_def shots_call)

lemma shots_item [shots_intros]: "shots Q S (item xs i) S"
  by (simp add: item_def shots_pure shots_raise)

lemma shots_bind [shots_intros]:
  assumes "shots Q S m S1" and "\<And>x. shots Q S1 (f x) S2"
  shows "shots Q S (bind m f) S2"
proof (rule shotsI)
  fix w h y tr out
  assume r: "bind m f w h = (Next y, tr, out)"
  obtain oc1 tr1 out1 where m: "m w h = (oc1, tr1, out1)" by (cases "m w h") auto
  with r obtain x where x: "oc1 = Next x" by (cases oc1) (auto simp: run)
  obtain oc2 tr2 out2 where f: "f x w (h @ tr1) = (oc2, tr2, out2)"
    by (cases "f x w (h @ tr1)") auto
  from r m x f have e: "oc2 = Next y" "tr = tr1 @ tr2" by (auto simp: run)
  from shots_Next [OF assms(1)] m x have "S1 \<subseteq> S \<union> set (saved w h tr1)" by simp
  moreover from shots_Next [OF assms(2)] f e have "S2 \<subseteq> S1 \<union> set (saved w (h @ tr1) tr2)" by simp
  ultimately show "S2 \<subseteq> S \<union> set (saved w h tr)"
    using e by (auto simp: saved_append)
next
  fix w h msg tr out
  assume r: "bind m f w h = (Returned msg, tr, out)" and q: "Q msg"
  obtain oc1 tr1 out1 where m: "m w h = (oc1, tr1, out1)" by (cases "m w h") auto
  show "\<exists>p \<in> S \<union> set (saved w h tr). contains p msg"
  proof (cases oc1)
    case (Next x)
    obtain oc2 tr2 out2 where f: "f x w (h @ tr1) = (oc2, tr2, out2)"
      by (cases "f x w (h @ tr1)") auto
    from r m Next f have e: "oc2 = Returned msg" "tr = tr1 @ tr2" by (auto simp: run)
    from shots_Next [OF assms(1)] m Next have "S1 \<subseteq> S \<union> set (saved w h tr1)" by simp
    moreover from shots_Returned [OF assms(2) _ q] f e
    have "\<exists>p \<in> S1 \<union> set (saved w (h @ tr1) tr2). contains p msg" by simp
    ultimately show ?thesis using e by (auto simp: saved_append)
  next
    case (Returned v)
    with r m have "v = msg" "tr = tr1" by (auto simp: run)
    with shots_Returned [OF assms(1) _ q] m Returned show ?thesis by simp
  next
    case (Raised e)
    with r m show ?thesis by (simp add: run)
  qed
qed

lemma shots_seq [shots_intros]: "shots Q S m S1 \<Longrightarrow> shots Q S1 k S2 \<Longrightarrow> shots Q S (seq m k) S2"
  by (simp add: seq_def shots_bind)

lemma shots_block_Nil [shots_intros]: "shots Q S (block []) S"
  by (simp add: shots_pure)

lemma shots_block_Cons [shots_intros]:
  "shots Q S m S1 \<Longrightarrow> shots Q S1 (block ms) S2 \<Longrightarrow> shots Q S (block (m # ms)) S2"
  by (simp add: shots_seq)

lemma shots_weaken: "shots Q S m S1 \<Longrightarrow> shots Q S m S"
  by (rule shotsI) (auto dest: shots_Returned)

lemma shots_if_then [shots_intros]: "shots Q S m S1 \<Longrightarrow> shots Q S (if_then c m) S"
  by (auto simp: if_then_def shots_pure dest: shots_weaken)

lemma shots_if [shots_intros]:
  "shots Q S a S1 \<Longrightarrow> shots Q S b S2 \<Longrightarrow> shots Q S (if c then a else b) S"
  by (auto dest: shots_weaken)

lemma shots_case_option [shots_intros]:
  "shots Q S a S1 \<Longrightarrow> (\<And>y. shots Q S (b y) S2)
   \<Longrightarrow> shots Q S (case x of None \<Rightarrow> a | Some y \<Rightarrow> b y) S"
  by (cases x) (auto dest: shots_weaken)

lemma shots_try_except [shots_intros]:
  assumes "shots Q S m S1" and "\<And>e. shots Q S (handler e) S2"
  shows "shots Q S (try_except m handler) S"
proof (rule shotsI)
  fix w h msg tr out
  assume r: "try_except m handler w h = (Returned msg, tr, out)" and q: "Q msg"
  obtain oc1 tr1 out1 where m: "m w h = (oc1, tr1, out1)" by (cases "m w h") auto
  show "\<exists>p \<in> S \<union> set (saved w h tr). contains p msg"
  proof (cases oc1)
    case (Raised e)
    obtain oc2 tr2 out2 where f: "handler e w (h @ tr1) = (oc2, tr2, out2)"
      by (cases "handler e w (h @ tr1)") auto
    from r m Raised f have e: "oc2 = Returned msg" "tr = tr1 @ tr2" by (auto simp: run)
    from shots_Returned [OF assms(2) _ q] f e
    have "\<exists>p \<in> S \<union> set (saved w (h @ tr1) tr2). contains p msg" by simp
    then show ?thesis using e by (auto simp: saved_append)
  next
    case (Returned v)
    with r m have "v = msg" "tr = tr1" by (auto simp: run)
    with shots_Returned [OF assms(1) _ q] m Returned show ?thesis by simp
  next
    case (Next x)
    with r m show ?thesis by (simp add: run)
  qed
qed simp

lemma shots_try_finally [shots_intros]:
  assumes "shots Q S m S1" and "shots Q S fin S2"
  shows "shots Q S (try_finally m fin) S"
proof (rule shotsI)
  fix w h msg tr out
  assume r: "try_finally m fin w h = (Returned msg, tr, out)" and q: "Q msg"
  obtain oc1 tr1 out1 where m: "m w h = (oc1, tr1, out1)" by (cases "m w h") auto
  obtain oc2 tr2 out2 where f: "fin w (h @ tr1) = (oc2, tr2, out2)"
    by (cases "fin w (h @ tr1)") auto
  show "\<exists>p \<in> S \<union> set (saved w h tr). contains p msg"
  proof (cases oc2)
    case (Next u)
    with r m f have e: "oc1 = Returned msg" "tr = tr1 @ tr2" by (auto simp: run)
    from shots_Returned [OF assms(1) _ q] m e
    have "\<exists>p \<in> S \<union> set (saved w h tr1). contains p msg" by simp
    then show ?thesis using e by (auto simp: saved_append)
  next
    case (Returned v)
    with r m f have e: "v = msg" "tr = tr1 @ tr2" by (auto simp: run)
    from shots_Returned [OF assms(2) _ q] f Returned e
    have "\<exists>p \<in> S \<union> set (saved w (h @ tr1) tr2). contains p msg" by simp
    then show ?thesis using e by (auto simp: saved_append)
  next
    case (Raised e)
    with r m f show ?thesis by (simp add: run)
  qed
qed simp

lemma shots_for_loop [shots_intros]:
  assumes "\<And>x v. shots Q S (body x v) S1"
  shows "shots Q S (for_loop xs v body) S"
proof (rule shotsI)
  fix w h msg tr out
  assume "for_loop xs v body w h = (Returned msg, tr, out)" and q: "Q msg"
  then show "\<exists>p \<in> S \<union> set (saved w h tr). contains p msg"
  proof (induction xs arbitrary: v h tr out)
    case Nil
    then show ?case by simp
  next
    case (Cons x xs)
    obtain oc1 tr1 out1 where b: "body x v w h = (oc1, tr1, out1)" by (cases "body x v w h") auto
    show ?case
    proof (cases oc1)
      case (Next cv)
      obtain c v' where cv: "cv = (c, v')" by (cases cv) auto
      show ?thesis
      proof (cases c)
        case Continue
        obtain oc2 tr2 out2 where l: "for_loop xs v' body w (h @ tr1) = (oc2, tr2, out2)"
          by (cases "for_loop xs v' body w (h @ tr1)") auto
        from Cons.prems(1) b Next cv Continue l have e: "oc2 = Returned msg" "tr = tr1 @ tr2"
          by auto
        from Cons.IH [OF _ q] l e have "\<exists>p \<in> S \<union> set (saved w (h @ tr1) tr2). contains p msg" by simp
        then show ?thesis using e by (auto simp: saved_append)
      next
        case Break
        with Cons.prems(1) b Next cv show ?thesis by simp
      qed
    next
      case (Returned r)
      with Cons.prems(1) b have "r = msg" "tr = tr1" by auto
      with shots_Returned [OF assms _ q] b Returned show ?thesis by simp
    next
      case (Raised e)
      with Cons.prems(1) b show ?thesis by simp
    qed
  qed
qed simp

lemma shots_with_playwright [shots_intros]:
  assumes "shots Q S body S1"
  shows "shots Q S (with_playwright body) S"
proof -
  have "shots Q S (\<lambda>w h. (Next (), [StopPlaywright], [])) S"
    by (rule shotsI) simp_all
  with assms show ?thesis
    unfolding with_playwright_def
    by (intro shots_seq [OF shots_call] shots_try_finally)
qed

lemma shots_unless_found [shots_intros]: "shots Q S (unless_found x alt) S"
  unfolding unless_found_def by (rule shots_bind [OF shots_count shots_pure])

lemma shots_either_found [shots_intros]: "shots Q S (either_found a b) S"
  unfolding either_found_def
  by (rule shots_bind [OF shots_count shots_if [OF shots_pure shots_bind [OF shots_count shots_pure]]])


lemma startswith_simps:
  "startswith s [] = True"
  "startswith [] (d # p) = False"
  "startswith (c # s) (d # p) = (c = d \<and> startswith s p)"
  by (auto simp: startswith_def)

lemma contains_append: "contains sub s \<Longrightarrow> contains sub (t @ s)"
  by (induction t) simp_all

lemmas emoji_defs = warning_sign_def memo_def bar_chart_def pushpin_def hooked_arrow_def
  check_mark_def cross_mark_def light_bulb_def speech_balloon_def writing_hand_def
  outbox_tray_def hourglass_def arrows_cycle_def nl_def

lemma post_tweet_shots:
  "shots missing_or_uncertain {} (post_tweet content reply_to dry_run) {}"
  unfolding tweet_defs
  apply (rule shots_intros
      | simp add: missing_or_uncertain_def action_word_def emoji_defs lit_simps startswith_simps)+
  done

lemma post_article_shots:
  "shots missing_or_uncertain {} (post_article title content dry_run) {}"
  unfolding post_article_def post_article_try_def await_confirmation_def try_title_selector_def
    type_chunk_def try_publish_button_def Let_def
  apply (rule shots_intros
      | simp add: missing_or_uncertain_def emoji_defs lit_simps startswith_simps contains_append)+
  done


lemma lit_eq_iff [simp]: "lit a = lit b \<longleftrightarrow> a = b"
  by (simp add: lit_def inj_map_eq_map inj_of_char)

lemma agreeable_edit_url:
  "contains (lit ''/edit'') (lit ''https://zhuanlan.zhihu.com/p/123/edit'') = True"
  by (simp add: string_defs)

lemma reply_button_only_run:
  \<open>\<exists>tr out.
     post_tweet (lit ''hi'') (Some (lit ''https://x.com/a/status/1'')) False reply_button_only []
     = (Returned (cross_mark
          @ lit '' Could not find tweet textbox. Screenshot saved to /tmp/twitter_debug.png''),
        tr, out)
     \<and> saved reply_button_only [] tr = [lit ''/tmp/twitter_debug.png'']
     \<and> probes tr = [
          First (Locator (lit ''[data-testid="reply"]'')),
          First (Locator (lit ''[data-testid="reply"]'')),
          First (Locator (lit ''[data-testid="tweetTextarea_0"]'')),
          First (Locator (lit ''div[role="dialog"] [data-testid="tweetTextarea_0"]'')),
          First (Locator (lit ''[aria-label="Post text"]''))]\<close>
  by (simp add: tweet_defs tweet_textarea_def post_text_box_def str_of_opt_def action_word_def
        run statement_defs reply_button_only_def agreeable_def del: block.simps)

lemma no_success_dialog_run:
  "\<exists>tr out.
     post_article (lit ''T'') (lit ''hi'') False no_success_dialog []
     = (Returned (warning_sign @ lit ''  Uncertain if published. Current URL: ''
          @ lit ''https://zhuanlan.zhihu.com/p/123/edit'' @ nl
          @ lit ''Screenshot saved to /tmp/zhihu_result.png''),
        tr, out)
     \<and> saved no_success_dialog [] tr = [lit ''/tmp/zhihu_result.png'']"
  by (simp add: article_defs range3.simps run statement_defs no_success_dialog_def agreeable_def
        agreeable_url agreeable_edit_url del: block.simps)


section \<open>One pass over the selectors\<close>

named_theorems costs_intros
named_theorems costs_free

lemma costsD: "costs P n m \<Longrightarrow> m w h = (oc, tr, out) \<Longrightarrow> length (filter P tr) \<le> n"
  by (metis costs_def fst_conv snd_conv)

lemma costsI: "(\<And>w h oc tr out. m w h = (oc, tr, out) \<Longrightarrow> length (filter P tr) \<le> n) \<Longrightarrow> costs P n m"
  unfolding costs_def by (metis prod.collapse)

lemma costs_le: "costs P a m \<Longrightarrow> a \<le> b \<Longrightarrow> costs P b m"
  by (auto simp: costs_def intro: order_trans)

lemma costs_pure [costs_intros]: "costs P 0 (pure x)"
  by (simp add: costs_def run)

lemma costs_return [costs_intros]: "costs P 0 (return v)"
  by (simp add: costs_def run)

lemma costs_raise [costs_intros]: "costs P 0 (raise e)"
  by (simp add: costs_def run)

lemma costs_print [costs_intros]: "costs P 0 (print s)"
  by (simp add: costs_def run)

lemma costs_contexts [costs_intros]: "costs P 0 contexts"
  by (simp add: costs_def run)

lemma costs_page_url [costs_intros]: "costs P 0 page_url"
  by (simp add: costs_def run)

lemma costs_item [costs_intros]: "costs P 0 (item xs i)"
  by (simp add: item_def costs_pure costs_raise)

lemma costs_perform: "costs P (if P a then 1 else 0) (perform a reply)"
  by (simp add: costs_def run split: sum.splits)

lemma costs_call_if: "costs P (if P a then 1 else 0) (call a)"
  by (simp add: call_def costs_perform)

lemma costs_call [costs_intros]: "costs P 1 (call a)"
  by (rule costs_le [OF costs_call_if]) simp

lemma costs_call_free [costs_free]: "\<not> P a \<Longrightarrow> costs P 0 (call a)"
  using costs_call_if [of P a] by simp

lemma costs_count [costs_intros]: "costs P 1 (count l)"
  unfolding count_def by (rule costs_le [OF costs_perform]) simp

lemma costs_get_attribute [costs_intros]: "costs P 1 (get_attribute l n)"
  unfolding get_attribute_def by (rule costs_le [OF costs_perform]) simp

lemma costs_get_attribute_free [costs_free]:
  "\<not> P (GetAttribute l n) \<Longrightarrow> costs P 0 (get_attribute l n)"
  unfolding get_attribute_def using costs_perform [of P "GetAttribute l n"] by simp

lemma costs_inner_text [costs_intros]: "costs P 1 (inner_text l)"
  unfolding inner_text_def by (rule costs_le [OF costs_perform]) simp

lemma costs_is_disabled [costs_intros]: "costs P 1 (is_disabled l)"
  unfolding is_disabled_def by (rule costs_le [OF costs_perform]) simp

lemma costs_goto [costs_intros]: "costs P 1 (goto url u t)"
  unfolding goto_def by (rule costs_call)

lemma costs_goto_free [costs_free]: "\<not> P (Goto url u t) \<Longrightarrow> costs P 0 (goto url u t)"
  by (simp add: goto_def costs_call_free)

lemma costs_wait_for_timeout [costs_intros]: "costs P 1 (wait_for_timeout ms)"
  unfolding wait_for_timeout_def by (rule costs_call)

lemma costs_wait_for_timeout_free [costs_free]:
  "\<not> P (WaitForTimeout ms) \<Longrightarrow> costs P 0 (wait_for_timeout ms)"
  by (simp add: wait_for_timeout_def costs_call_free)

lemma costs_screenshot [costs_intros]: "costs P 1 (screenshot p)"
  unfolding screenshot_def by (rule costs_call)

lemma costs_screenshot_free [costs_free]:
  "\<not> P (Screenshot p) \<Longrightarrow> costs P 0 (screenshot p)"
  by (simp add: screenshot_def costs_call_free)

lemma costs_bind [costs_intros]:
  assumes "costs P a m" and "\<And>x. costs P b (f x)"
  shows "costs P (a + b) (bind m f)"
proof (rule costsI)
  fix w h oc tr out
  assume r: "bind m f w h = (oc, tr, out)"
  obtain oc1 tr1 out1 where m: "m w h = (oc1, tr1, out1)" by (cases "m w h") auto
  from costsD [OF assms(1) m] have p1: "length (filter P tr1) \<le> a" .
  show "length (filter P tr) \<le> a + b"
  proof (cases oc1)
    case (Next x)
    obtain oc2 tr2 out2 where f: "f x w (h @ tr1) = (oc2, tr2, out2)"
      by (cases "f x w (h @ tr1)") auto
    from costsD [OF assms(2) f] p1 r m Next f show ?thesis by (auto simp: run)
  next
    case (Returned v)
    with r m p1 show ?thesis by (auto simp: run)
  next
    case (Raised e)
    with r m p1 show ?thesis by (auto simp: run)
  qed
qed

lemma costs_seq [costs_intros]: "costs P a m \<Longrightarrow> costs P b k \<Longrightarrow> costs P (a + b) (seq m k)"
  by (simp add: seq_def costs_bind)

lemma costs_block_Nil [costs_intros]: "costs P 0 (block [])"
  by (simp add: costs_pure)

lemma costs_block_Cons [costs_intros]:
  "costs P a m \<Longrightarrow> costs P b (block ms) \<Longrightarrow> costs P (a + b) (block (m # ms))"
  by (simp add: costs_seq)

lemma costs_if_then [costs_intros]: "costs P a m \<Longrightarrow> costs P a (if_then c m)"
  by (auto simp: if_then_def intro: costs_le [OF costs_pure])

lemma costs_if [costs_intros]:
  "costs P a m \<Longrightarrow> costs P b k \<Longrightarrow> costs P (max a b) (if c then m else k)"
  by (auto intro: costs_le)

lemma costs_try_except [costs_intros]:
  assumes "costs P a m" and "\<And>e. costs P b (handler e)"
  shows "costs P (a + b) (try_except m handler)"
proof (rule costsI)
  fix w h oc tr out
  assume r: "try_except m handler w h = (oc, tr, out)"
  obtain oc1 tr1 out1 where m: "m w h = (oc1, tr1, out1)" by (cases "m w h") auto
  from costsD [OF assms(1) m] have p1: "length (filter P tr1) \<le> a" .
  show "length (filter P tr) \<le> a + b"
  proof (cases oc1)
    case (Raised e)
    obtain oc2 tr2 out2 where f: "handler e w (h @ tr1) = (oc2, tr2, out2)"
      by (cases "handler e w (h @ tr1)") auto
    from costsD [OF assms(2) f] p1 r m Raised f show ?thesis by (auto simp: run)
  next
    case (Returned v)
    with r m p1 show ?thesis by (auto simp: run)
  next
    case (Next x)
    with r m p1 show ?thesis by (auto simp: run)
  qed
qed

lemma costs_try_finally [costs_intros]:
  assumes "costs P a m" and "costs P b fin"
  shows "costs P (a + b) (try_finally m fin)"
proof (rule costsI)
  fix w h oc tr out
  assume r: "try_finally m fin w h = (oc, tr, out)"
  obtain oc1 tr1 out1 where m: "m w h = (oc1, tr1, out1)" by (cases "m w h") auto
  obtain oc2 tr2 out2 where f: "fin w (h @ tr1) = (oc2, tr2, out2)"
    by (cases "fin w (h @ tr1)") auto
  from costsD [OF assms(1) m] costsD [OF assms(2) f] r m f
  show "length (filter P tr) \<le> a + b"
    by (cases oc2) (auto simp: run)
qed

lemma costs_for_loop [costs_intros]:
  assumes "\<And>x v. costs P b (body x v)"
  shows "costs P (length xs * b) (for_loop xs v body)"
proof (rule costsI)
  fix w h oc tr out
  assume "for_loop xs v body w h = (oc, tr, out)"
  then show "length (filter P tr) \<le> length xs * b"
  proof (induction xs arbitrary: v h oc tr out)
    case Nil
    then show ?case by simp
  next
    case (Cons x xs)
    obtain oc1 tr1 out1 where b: "body x v w h = (oc1, tr1, out1)" by (cases "body x v w h") auto
    from costsD [OF assms b] have p1: "length (filter P tr1) \<le> b" .
    show ?case
    proof (cases oc1)
      case (Next cv)
      obtain c v' where cv: "cv = (c, v')" by (cases cv) auto
      show ?thesis
      proof (cases c)
        case Continue
        obtain oc2 tr2 out2 where l: "for_loop xs v' body w (h @ tr1) = (oc2, tr2, out2)"
          by (cases "for_loop xs v' body w (h @ tr1)") auto
        from Cons.IH [OF l] p1 Cons.prems b Next cv Continue l show ?thesis by auto
      next
        case Break
        with Cons.prems b Next cv p1 show ?thesis by auto
      qed
    next
      case (Returned r)
      with Cons.prems b p1 show ?thesis by auto
    next
      case (Raised e)
      with Cons.prems b p1 show ?thesis by auto
    qed
  qed
qed

lemma costs_with_playwright [costs_intros]:
  assumes "costs P a body"
  shows "costs P ((if P StartPlaywright then 1 else 0) + (a + (if P StopPlaywright then 1 else 0)))
           (with_playwright body)"
proof -
  have "costs P (if P StopPlaywright then 1 else 0) (\<lambda>w h. (Next (), [StopPlaywright], []))"
    by (simp add: costs_def)
  with assms show ?thesis
    unfolding with_playwright_def by (intro costs_seq costs_try_finally costs_call_if)
qed

lemma costs_unless_found [costs_intros]: "costs P 1 (unless_found x alt)"
  unfolding unless_found_def by (rule costs_le [OF costs_bind [OF costs_count costs_pure]]) simp

lemma costs_either_found [costs_intros]: "costs P 2 (either_found a b)"
  unfolding either_found_def
  by (rule costs_le [OF costs_bind [OF costs_count
        costs_if [OF costs_pure costs_bind [OF costs_count costs_pure]]]]) simp

lemma bind_assoc: "bind (bind m g) f = bind m (\<lambda>x. bind (g x) f)"
  by (rule ext, rule ext) (simp add: run split: prod.splits outcome.splits)

lemma bind_seq: "bind (seq m k) f = seq m (bind k f)"
  by (simp add: seq_def bind_assoc)

lemma bind_if: "bind (if c then m else k) f = (if c then bind m f else bind k f)"
  by simp

lemma costs_count_if: "costs P (if P (Count l) then 1 else 0) (count l)"
  by (simp add: count_def costs_perform)

lemma costs_count_free [costs_free]: "\<not> P (Count l) \<Longrightarrow> costs P 0 (count l)"
  using costs_count_if [of P l] by simp

lemma costs_either_found_free [costs_free]:
  "\<not> P (Count a) \<Longrightarrow> \<not> P (Count b) \<Longrightarrow> costs P 0 (either_found a b)"
  unfolding either_found_def
  by (rule costs_le [OF costs_bind [OF costs_count_free
        costs_if [OF costs_pure costs_bind [OF costs_count_free costs_pure]]]]) simp_all

text \<open>
  After \<open>if not await x.count(): x = alt\<close> the locator is \<open>x\<close> or \<open>alt\<close>: what follows
  costs at most what it costs for the dearer of the two.
\<close>

lemma costs_unless_found_bind:
  assumes "costs P a (f x)" and "costs P b (f alt)"
  shows "costs P ((if P (Count x) then 1 else 0) + max a b) (bind (unless_found x alt) f)"
proof (rule costsI)
  fix w h oc tr out
  assume r: "bind (unless_found x alt) f w h = (oc, tr, out)"
  show "length (filter P tr) \<le> (if P (Count x) then 1 else 0) + max a b"
  proof (cases "count_reply w h x")
    case (Inl e)
    with r show ?thesis by (auto simp: unless_found_def count_def run)
  next
    case (Inr n)
    let ?y = "if n = 0 then alt else x"
    obtain oc2 tr2 out2 where f: "f ?y w (h @ [Count x]) = (oc2, tr2, out2)"
      by (cases "f ?y w (h @ [Count x])") auto
    have "length (filter P tr2) \<le> max a b"
      using costsD [OF assms(1), of w "h @ [Count x]" oc2 tr2 out2]
        costsD [OF assms(2), of w "h @ [Count x]" oc2 tr2 out2] f
      by (auto split: if_splits)
    moreover from r Inr f have "tr = Count x # tr2"
      by (auto simp: unless_found_def count_def run split: if_splits)
    ultimately show ?thesis by auto
  qed
qed

lemma costs_for_loop_each:
  assumes "\<And>x v. costs P (b x) (body x v)"
  shows "costs P (sum_list (map b xs)) (for_loop xs v body)"
proof (rule costsI)
  fix w h oc tr out
  assume "for_loop xs v body w h = (oc, tr, out)"
  then show "length (filter P tr) \<le> sum_list (map b xs)"
  proof (induction xs arbitrary: v h oc tr out)
    case Nil
    then show ?case by simp
  next
    case (Cons x xs)
    obtain oc1 tr1 out1 where b: "body x v w h = (oc1, tr1, out1)" by (cases "body x v w h") auto
    from costsD [OF assms b] have p1: "length (filter P tr1) \<le> b x" .
    show ?case
    proof (cases oc1)
      case (Next cv)
      obtain c v' where cv: "cv = (c, v')" by (cases cv) auto
      show ?thesis
      proof (cases c)
        case Continue
        obtain oc2 tr2 out2 where l: "for_loop xs v' body w (h @ tr1) = (oc2, tr2, out2)"
          by (cases "for_loop xs v' body w (h @ tr1)") auto
        from Cons.IH [OF l] p1 Cons.prems b Next cv Continue l show ?thesis by auto
      next
        case Break
        with Cons.prems b Next cv p1 show ?thesis by auto
      qed
    next
      case (Returned r)
      with Cons.prems b p1 show ?thesis by auto
    next
      case (Raised e)
      with Cons.prems b p1 show ?thesis by auto
    qed
  qed
qed

lemmas costs_rest = costs_pure costs_return costs_raise costs_print costs_contexts costs_page_url
  costs_item costs_call costs_count_if costs_get_attribute costs_goto costs_wait_for_timeout
  costs_screenshot costs_bind costs_seq costs_block_Nil costs_block_Cons costs_if_then costs_if
  costs_try_except costs_try_finally costs_for_loop_each costs_with_playwright costs_either_found

lemma count_list_probes: "count_list (probes tr) l = length (filter (\<lambda>a. a = Count l) tr)"
  by (induction tr rule: probes.induct) simp_all

lemma probes_of_reply_selector:
  \<open>costs (\<lambda>a. a = Count (First (Locator (lit ''[data-testid="reply"]'')))) 2
     (post_tweet content reply_to dry_run)\<close>
  unfolding tweet_defs
  apply (simp only: bind_assoc bind_seq bind_if)
  apply (rule costs_le)
   apply (rule costs_unless_found_bind
       | (rule costs_free; (simp add: tweet_textarea_def post_text_box_def; fail))
       | rule costs_rest)+
  apply (simp add: tweet_textarea_def post_text_box_def)
  done

lemma probes_of_reply_label:
  \<open>costs (\<lambda>a. a = Count (First (Locator (lit ''button[aria-label*="Reply"]'')))) 1
     (post_tweet content reply_to dry_run)\<close>
  unfolding tweet_defs
  apply (simp only: bind_assoc bind_seq bind_if)
  apply (rule costs_le)
   apply (rule costs_unless_found_bind
       | (rule costs_free; (simp add: tweet_textarea_def post_text_box_def; fail))
       | rule costs_rest)+
  apply (simp add: tweet_textarea_def post_text_box_def)
  done

lemma probes_of_tweet_textarea:
  \<open>costs (\<lambda>a. a = Count (tweet_textarea)) 3
     (post_tweet content reply_to dry_run)\<close>
  unfolding tweet_defs
  apply (simp only: bind_assoc bind_seq bind_if)
  apply (rule costs_le)
   apply (rule costs_unless_found_bind
       | (rule costs_free; (simp add: tweet_textarea_def post_text_box_def; fail))
       | rule costs_rest)+
  apply (simp add: tweet_textarea_def post_text_box_def)
  done

lemma probes_of_dialog_textarea:
  \<open>costs (\<lambda>a. a = Count (First (Locator (lit ''div[role="dialog"] [data-testid="tweetTextarea_0"]'')))) 2
     (post_tweet content reply_to dry_run)\<close>
  unfolding tweet_defs
  apply (simp only: bind_assoc bind_seq bind_if)
  apply (rule costs_le)
   apply (rule costs_unless_found_bind
       | (rule costs_free; (simp add: tweet_textarea_def post_text_box_def; fail))
       | rule costs_rest)+
  apply (simp add: tweet_textarea_def post_text_box_def)
  done

lemma probes_of_post_text_box:
  \<open>costs (\<lambda>a. a = Count (post_text_box)) 1
     (post_tweet content reply_to dry_run)\<close>
  unfolding tweet_defs
  apply (simp only: bind_assoc bind_seq bind_if)
  apply (rule costs_le)
   apply (rule costs_unless_found_bind
       | (rule costs_free; (simp add: tweet_textarea_def post_text_box_def; fail))
       | rule costs_rest)+
  apply (simp add: tweet_textarea_def post_text_box_def)
  done

lemma probes_of_dialog_tweet_button:
  \<open>costs (\<lambda>a. a = Count (First (Locator (lit ''div[role="dialog"] button[data-testid="tweetButton"]'')))) 1
     (post_tweet content reply_to dry_run)\<close>
  unfolding tweet_defs
  apply (simp only: bind_assoc bind_seq bind_if)
  apply (rule costs_le)
   apply (rule costs_unless_found_bind
       | (rule costs_free; (simp add: tweet_textarea_def post_text_box_def; fail))
       | rule costs_rest)+
  apply (simp add: tweet_textarea_def post_text_box_def)
  done

lemma probes_of_tweet_button:
  \<open>costs (\<lambda>a. a = Count (First (Locator (lit ''button[data-testid="tweetButton"]'')))) 1
     (post_tweet content reply_to dry_run)\<close>
  unfolding tweet_defs
  apply (simp only: bind_assoc bind_seq bind_if)
  apply (rule costs_le)
   apply (rule costs_unless_found_bind
       | (rule costs_free; (simp add: tweet_textarea_def post_text_box_def; fail))
       | rule costs_rest)+
  apply (simp add: tweet_textarea_def post_text_box_def)
  done

lemma probes_of_tweet_button_inline:
  \<open>costs (\<lambda>a. a = Count (First (Locator (lit ''button[data-testid="tweetButtonInline"]'')))) 1
     (post_tweet content reply_to dry_run)\<close>
  unfolding tweet_defs
  apply (simp only: bind_assoc bind_seq bind_if)
  apply (rule costs_le)
   apply (rule costs_unless_found_bind
       | (rule costs_free; (simp add: tweet_textarea_def post_text_box_def; fail))
       | rule costs_rest)+
  apply (simp add: tweet_textarea_def post_text_box_def)
  done

lemma probes_of_dialog_reply_button:
  \<open>costs (\<lambda>a. a = Count (First (Locator (lit ''div[role="dialog"] button:has-text("Reply")'')))) 1
     (post_tweet content reply_to dry_run)\<close>
  unfolding tweet_defs
  apply (simp only: bind_assoc bind_seq bind_if)
  apply (rule costs_le)
   apply (rule costs_unless_found_bind
       | (rule costs_free; (simp add: tweet_textarea_def post_text_box_def; fail))
       | rule costs_rest)+
  apply (simp add: tweet_textarea_def post_text_box_def)
  done

lemma probes_of_dialog_post_button:
  \<open>costs (\<lambda>a. a = Count (First (Locator (lit ''div[role="dialog"] button:has-text("Post")'')))) 1
     (post_tweet content reply_to dry_run)\<close>
  unfolding tweet_defs
  apply (simp only: bind_assoc bind_seq bind_if)
  apply (rule costs_le)
   apply (rule costs_unless_found_bind
       | (rule costs_free; (simp add: tweet_textarea_def post_text_box_def; fail))
       | rule costs_rest)+
  apply (simp add: tweet_textarea_def post_text_box_def)
  done

lemma length_probes: "length (probes tr) = length (filter is_probe tr)"
  by (induction tr rule: probes.induct) (simp_all add: is_probe_def)

lemma post_tweet_calls: "costs (\<lambda>a. True) 48 (post_tweet content reply_to dry_run)"
  unfolding tweet_defs
  by (rule costs_le, (rule costs_intros)+) simp

lemma post_tweet_probes: "costs is_probe 14 (post_tweet content reply_to dry_run)"
  unfolding tweet_defs
  by (rule costs_le, ((rule costs_free, (simp add: is_probe_def; fail)) | rule costs_intros)+)
     (simp add: is_probe_def)

lemma post_tweet_sleeps:
  "emits (sleeps_in {300, 500, 1500, 2000, 3000}) (post_tweet content reply_to dry_run)"
  unfolding tweet_defs
  by (intro emits_intros; simp add: sleeps_in_def)

lemma post_article_sleeps:
  "emits (sleeps_in {50, 500, 1000, 2000, 3000, 5000}) (post_article title content dry_run)"
  unfolding post_article_def post_article_try_def await_confirmation_def try_title_selector_def
    type_chunk_def try_publish_button_def Let_def
  by (intro emits_intros; simp add: sleeps_in_def)




end
